theory Spec2Isabelle
  imports Complex_Main
begin

section \<open>Similarity scorer (class Mapper, src/providers/mapper.js)\<close>

text \<open>
  JavaScript strings are sequences of UTF-16 code units and \<^verbatim>\<open>length\<close> counts code
  units. The scorer is modelled over lists of an arbitrary character type \<open>'c\<close>, one list
  element per code unit. \<^verbatim>\<open>String.prototype.toLowerCase\<close> is a built-in of the host and
  not part of the repository: it is the parameter \<open>lc\<close> of every function that calls it.
  Numbers are IEEE doubles in the source; the scores are quotients of two string lengths
  and are modelled as exact rationals.
\<close>

text \<open>
  \<^verbatim>\<open>costs[j] = v\<close> on a JavaScript array: an index below the length overwrites, the
  index equal to the length appends. (A larger index would leave holes; \<^verbatim>\<open>editDistance\<close>
  writes its row left to right and never does that.)
\<close>

definition arr_set :: "nat list \<Rightarrow> nat \<Rightarrow> nat \<Rightarrow> nat list" where
  "arr_set xs j v =
     (if j < length xs then xs[j := v] else xs @ replicate (j - length xs) 0 @ [v])"

text \<open>
  The body of the inner loop of \<^verbatim>\<open>editDistance\<close> for one \<open>j\<close>, on the loop state
  \<open>(costs, lastValue)\<close>:
  \<^verbatim>\<open>
    if (i === 0) costs[j] = j;
    else if (j > 0) {
      let newValue = costs[j - 1];
      if (s1.charAt(i - 1) !== s2.charAt(j - 1))
        newValue = Math.min(Math.min(newValue, lastValue), costs[j]) + 1;
      costs[j - 1] = lastValue;
      lastValue = newValue;
    }
  \<close>
\<close>

definition editDistance_inner ::
  "'c list \<Rightarrow> 'c list \<Rightarrow> nat \<Rightarrow> nat \<Rightarrow> nat list \<times> nat \<Rightarrow> nat list \<times> nat" where
  "editDistance_inner s1 s2 i j st =
     (case st of (costs, lastValue) \<Rightarrow>
        if i = 0 then (arr_set costs j j, lastValue)
        else if j > 0 then
          (let newValue = costs ! (j - 1);
               newValue' = (if s1 ! (i - 1) \<noteq> s2 ! (j - 1)
                            then min (min newValue lastValue) (costs ! j) + 1
                            else newValue)
           in (arr_set costs (j - 1) lastValue, newValue'))
        else (costs, lastValue))"

text \<open>
  The body of the outer loop for one \<open>i\<close>: \<^verbatim>\<open>let lastValue = i\<close>, the inner loop for
  \<open>j = 0 .. s2.length\<close>, then \<^verbatim>\<open>if (i > 0) costs[s2.length] = lastValue\<close>.
\<close>

definition editDistance_outer :: "'c list \<Rightarrow> 'c list \<Rightarrow> nat \<Rightarrow> nat list \<Rightarrow> nat list" where
  "editDistance_outer s1 s2 i costs =
     (case fold (editDistance_inner s1 s2 i) [0..<Suc (length s2)] (costs, i) of
        (costs', lastValue) \<Rightarrow>
          if i > 0 then arr_set costs' (length s2) lastValue else costs')"

definition editDistance :: "('c list \<Rightarrow> 'c list) \<Rightarrow> 'c list \<Rightarrow> 'c list \<Rightarrow> nat" where
  "editDistance lc a b =
     (let s1 = lc a; s2 = lc b;
          costs = fold (editDistance_outer s1 s2) [0..<Suc (length s1)] []
      in costs ! length s2)"

text \<open>
  \<^verbatim>\<open>stringSimilarity(s1, s2)\<close>. \<^verbatim>\<open>!s\<close> holds for the empty string (and for an absent
  title, which the model does not distinguish from the empty one). The longer string is
  chosen by the lengths before lower-casing, \<^verbatim>\<open>longerLength\<close> is measured after it.
\<close>

definition stringSimilarity :: "('c list \<Rightarrow> 'c list) \<Rightarrow> 'c list \<Rightarrow> 'c list \<Rightarrow> rat" where
  "stringSimilarity lc s1 s2 =
     (if s1 = [] \<or> s2 = [] then 0
      else
        let longer = (if length s1 \<ge> length s2 then lc s1 else lc s2);
            shorter = (if length s1 \<ge> length s2 then lc s2 else lc s1);
            longerLength = length longer
        in if longerLength = 0 then 1
           else (of_nat longerLength - of_nat (editDistance lc longer shorter))
                  / of_nat longerLength)"

text \<open>
  The classic Levenshtein distance, as the specification names it: the least number of
  single-element insertions, deletions and substitutions, each of cost one, by its
  textbook recursion. This definition follows the specification, not the source.
\<close>

fun levenshtein :: "'a list \<Rightarrow> 'a list \<Rightarrow> nat" where
  "levenshtein [] ys = length ys"
| "levenshtein (x # xs) [] = Suc (length xs)"
| "levenshtein (x # xs) (y # ys) =
     min (min (levenshtein xs (y # ys) + 1) (levenshtein (x # xs) ys + 1))
         (levenshtein xs ys + (if x = y then 0 else 1))"

text \<open>
  The table the two loops fill, row by row: the distance between the prefix of length
  \<open>i\<close> of the first string and the prefix of length \<open>j\<close> of the second.
\<close>

definition pd :: "'c list \<Rightarrow> 'c list \<Rightarrow> nat \<Rightarrow> nat \<Rightarrow> nat" where
  "pd s1 s2 i j = levenshtein (take i s1) (take j s2)"

text \<open>
  Two models of the built-in \<^verbatim>\<open>toLowerCase\<close> for concrete inputs. On code units given
  as numbers: the ASCII capitals, and U+0130 (LATIN CAPITAL LETTER I WITH DOT ABOVE), whose
  lower-case form in the Unicode special-casing table is the two code units U+0069 U+0307;
  every other unit is left as it is. On 8-bit characters: the ASCII capitals only.
\<close>

definition toLowerCase_units :: "nat list \<Rightarrow> nat list" where
  "toLowerCase_units s =
     concat (map (\<lambda>u. if 65 \<le> u \<and> u \<le> 90 then [u + 32]
                        else if u = 304 then [105, 775] else [u]) s)"

definition toLowerCase_ascii :: "string \<Rightarrow> string" where
  "toLowerCase_ascii s =
     map (\<lambda>c. let n = (of_char c :: nat) in if 65 \<le> n \<and> n \<le> 90 then char_of (n + 32) else c) s"

section \<open>Match selector and retry chain (class Mapper)\<close>

text \<open>
  Error messages are built by template literals that splice titles into fixed text. A
  message is the list of its pieces: literal text, and spliced strings of the title type.
\<close>

datatype 'c frag = Lit string | Val "'c list"

type_synonym 'c message = "'c frag list"

text \<open>
  \<^verbatim>\<open>Error\<close> is what the source throws with \<^verbatim>\<open>new Error(...)\<close>; \<^verbatim>\<open>TypeError\<close> is what
  the engine throws when a property of \<^verbatim>\<open>undefined\<close> is read (its text is the engine's).
\<close>

datatype 'c error = Error "'c message" | TypeError "'c message"

fun message :: "'c error \<Rightarrow> 'c message" where
  "message (Error m) = m"
| "message (TypeError m) = m"

text \<open>A search result, with the two fields the selector and its callers read.\<close>

record 'c manga =
  manga_id :: string
  title :: "'c list"

text \<open>
  One comparison of the two scanning loops of \<^verbatim>\<open>findBestMatch\<close>, on the loop state
  \<open>(bestMatch, highestSimilarity)\<close>; \<open>t\<close> is the title or the synonym compared with:
  \<^verbatim>\<open>
    const similarity = this.stringSimilarity(manga.title, t);
    if (similarity > highestSimilarity) { highestSimilarity = similarity; bestMatch = manga; }
  \<close>
  (\<^verbatim>\<open>matchSource\<close> is only logged and is left out.)
\<close>

definition findBestMatch_step ::
  "('c list \<Rightarrow> 'c list) \<Rightarrow> 'c list \<Rightarrow> 'c manga \<Rightarrow> 'c manga option \<times> rat \<Rightarrow> 'c manga option \<times> rat" where
  "findBestMatch_step lc t manga st =
     (case st of (bestMatch, highestSimilarity) \<Rightarrow>
        let similarity = stringSimilarity lc (title manga) t
        in if similarity > highestSimilarity then (Some manga, similarity)
           else (bestMatch, highestSimilarity))"

text \<open>
  The two loops: first every result against the main title, then (when there are
  synonyms) every result against every synonym, results in the outer loop.
\<close>

definition findBestMatch_scan ::
  "('c list \<Rightarrow> 'c list) \<Rightarrow> 'c manga list \<Rightarrow> 'c list \<Rightarrow> 'c list list \<Rightarrow> 'c manga option \<times> rat" where
  "findBestMatch_scan lc results t synonyms =
     (let st = fold (findBestMatch_step lc t) results (None, 0)
      in if synonyms \<noteq> [] then
           fold (\<lambda>manga. fold (\<lambda>synonym. findBestMatch_step lc synonym manga) synonyms) results st
         else st)"

text \<open>
  \<^verbatim>\<open>findBestMatch\<close> of src/providers/mapper.js:
  \<^verbatim>\<open>
    if (!bestMatch || highestSimilarity < 0.3) {
      bestMatch = results[0];
      console.log(`No similar manga found, using first result: ${bestMatch.title}`);
      return bestMatch;
    }
    return bestMatch;
  \<close>
  On an empty list \<^verbatim>\<open>results[0]\<close> is \<^verbatim>\<open>undefined\<close> and the log line reads its title.
\<close>

definition findBestMatch ::
  "('c list \<Rightarrow> 'c list) \<Rightarrow> 'c manga list \<Rightarrow> 'c list \<Rightarrow> 'c list list \<Rightarrow> 'c error + 'c manga" where
  "findBestMatch lc results t synonyms =
     (let fallback = (case results of
                        [] \<Rightarrow> Inl (TypeError [Lit ''Cannot read properties of undefined (reading title)''])
                      | first # _ \<Rightarrow> Inr first)
      in case findBestMatch_scan lc results t synonyms of
           (None, highestSimilarity) \<Rightarrow> fallback
         | (Some bestMatch, highestSimilarity) \<Rightarrow>
             if highestSimilarity < 3 / 10 then fallback else Inr bestMatch)"

text \<open>
  The later revision of \<^verbatim>\<open>findBestMatch\<close> (the Mapper class of unnamed/part_001): the
  cutoff is 0.4 and the empty list is checked for:
  \<^verbatim>\<open>
    if (!bestMatch || highestSimilarity < 0.4) {
      if (results.length > 0) { bestMatch = results[0]; ...; return bestMatch; }
      else throw new Error(`No manga results found to match with title: ${title}`);
    }
  \<close>
\<close>

definition findBestMatch_rev2 ::
  "('c list \<Rightarrow> 'c list) \<Rightarrow> 'c manga list \<Rightarrow> 'c list \<Rightarrow> 'c list list \<Rightarrow> 'c error + 'c manga" where
  "findBestMatch_rev2 lc results t synonyms =
     (let fallback = (case results of
                        [] \<Rightarrow> Inl (Error [Lit ''No manga results found to match with title: '', Val t])
                      | first # _ \<Rightarrow> Inr first)
      in case findBestMatch_scan lc results t synonyms of
           (None, highestSimilarity) \<Rightarrow> fallback
         | (Some bestMatch, highestSimilarity) \<Rightarrow>
             if highestSimilarity < 4 / 10 then fallback else Inr bestMatch)"

text \<open>
  The score of a candidate as the specification defines it: the greatest similarity of
  its title to the primary title and to the alternates; and the greatest score in a list
  of candidates.
\<close>

definition candidate_score :: "('c list \<Rightarrow> 'c list) \<Rightarrow> 'c list \<Rightarrow> 'c list list \<Rightarrow> 'c manga \<Rightarrow> rat" where
  "candidate_score lc t synonyms manga =
     Max (set (map (stringSimilarity lc (title manga)) (t # synonyms)))"

definition best_score :: "('c list \<Rightarrow> 'c list) \<Rightarrow> 'c manga list \<Rightarrow> 'c list \<Rightarrow> 'c list list \<Rightarrow> rat" where
  "best_score lc results t synonyms = Max (set (map (candidate_score lc t synonyms) results))"

text \<open>
  The order in which the two loops break ties at the score \<open>g\<close>: the first candidate
  whose title has similarity \<open>g\<close> to the primary title; when there is none, the first
  candidate whose title has similarity \<open>g\<close> to some alternate.
\<close>

definition pass_order_choice ::
  "('c list \<Rightarrow> 'c list) \<Rightarrow> 'c manga list \<Rightarrow> 'c list \<Rightarrow> 'c list list \<Rightarrow> rat \<Rightarrow> 'c manga option" where
  "pass_order_choice lc results t synonyms g =
     (case find (\<lambda>m. stringSimilarity lc (title m) t = g) results of
        Some m \<Rightarrow> Some m
      | None \<Rightarrow> find (\<lambda>m. list_ex (\<lambda>s. stringSimilarity lc (title m) s = g) synonyms) results)"





section \<open>String helpers of the extraction pipelines\<close>

text \<open>
  Page URLs and document text are \<open>string\<close>s. The helpers are the string methods the
  providers call: \<^verbatim>\<open>startsWith\<close>, \<^verbatim>\<open>includes\<close>, \<^verbatim>\<open>split(',')\<close>, \<^verbatim>\<open>trim\<close> and
  \<^verbatim>\<open>replace\<close> with a global literal pattern.
\<close>

definition startsWith :: "string \<Rightarrow> string \<Rightarrow> bool" where
  "startsWith s p = (take (length p) s = p)"

fun includes_str :: "string \<Rightarrow> string \<Rightarrow> bool" where
  "includes_str [] p = (p = [])"
| "includes_str (c # cs) p = (startsWith (c # cs) p \<or> includes_str cs p)"

fun split_comma :: "string \<Rightarrow> string list" where
  "split_comma [] = [[]]"
| "split_comma (c # cs) =
     (if c = CHR '','' then [] # split_comma cs
      else (case split_comma cs of
              [] \<Rightarrow> [[c]]
            | part # parts \<Rightarrow> (c # part) # parts))"

definition is_space :: "char \<Rightarrow> bool" where
  "is_space c = ((of_char c :: nat) \<in> {9, 10, 11, 12, 13, 32, 160})"

definition trim :: "string \<Rightarrow> string" where
  "trim s = rev (dropWhile is_space (rev (dropWhile is_space s)))"

function replace_all :: "string \<Rightarrow> string \<Rightarrow> string \<Rightarrow> string" where
  "replace_all pat rep s =
     (if s = [] \<or> pat = [] then s
      else if startsWith s pat then rep @ replace_all pat rep (drop (length pat) s)
      else hd s # replace_all pat rep (tl s))"
  by pat_completeness auto
termination
  by (relation "measure (\<lambda>(pat, rep, s). length s)") auto

declare replace_all.simps [simp del]

text \<open>The chapter-image file extensions of the regular expressions, matched without case.\<close>

definition image_exts :: "string list" where
  "image_exts = [''jpg'', ''jpeg'', ''png'', ''webp'']"

definition starts_with_ext :: "string \<Rightarrow> string option" where
  "starts_with_ext s =
     (case filter (\<lambda>e. toLowerCase_ascii (take (Suc (length e)) s) = CHR ''.'' # e) image_exts of
        [] \<Rightarrow> None
      | e # _ \<Rightarrow> Some e)"

fun tails :: "'a list \<Rightarrow> 'a list list" where
  "tails [] = [[]]"
| "tails (x # xs) = (x # xs) # tails xs"

text \<open>
  \<^verbatim>\<open>/\.(?:jpg|jpeg|png|webp)(?:\?|$)/i\<close> finds a match: somewhere in the string a dot and
  an extension are followed by a question mark or by the end of the string.
\<close>

definition ext_then_query_or_end :: "string \<Rightarrow> bool" where
  "ext_then_query_or_end s =
     list_ex (\<lambda>t. list_ex (\<lambda>e. toLowerCase_ascii (take (Suc (length e)) t) = CHR ''.'' # e
                          \<and> (case drop (Suc (length e)) t of [] \<Rightarrow> True | c # _ \<Rightarrow> c = CHR ''?''))
                       image_exts)
             (tails s)"

text \<open>
  \<^verbatim>\<open>/\.(jpg|jpeg|png|webp)(\?.*)?$/i\<close> finds a match: a dot and an extension end the
  string, or are followed by a question mark and then by no line terminator up to the end.
\<close>

definition ext_at_end :: "string \<Rightarrow> bool" where
  "ext_at_end s =
     list_ex (\<lambda>t. list_ex (\<lambda>e. toLowerCase_ascii (take (Suc (length e)) t) = CHR ''.'' # e
                          \<and> (case drop (Suc (length e)) t of
                                [] \<Rightarrow> True
                              | c # rest \<Rightarrow> c = CHR ''?''
                                  \<and> list_all (\<lambda>d. (of_char d :: nat) \<noteq> 10 \<and> (of_char d :: nat) \<noteq> 13) rest))
                       image_exts)
             (tails s)"

text \<open>\<^verbatim>\<open>a || b\<close> on an attribute or property that may be absent: the first truthy string.\<close>

definition js_or :: "string option \<Rightarrow> string \<Rightarrow> string" where
  "js_or a b = (case a of None \<Rightarrow> b | Some v \<Rightarrow> if v \<noteq> [] then v else b)"

section \<open>Documents as the pipelines read them\<close>

text \<open>
  The regular-expression engine, the HTML parser (cheerio) and \<^verbatim>\<open>JSON.parse\<close> belong to
  the host. A fetched document is given by what each scan of the source finds in it, in
  document order: one field per \<^verbatim>\<open>matchAll\<close>, \<^verbatim>\<open>match\<close> or selector of the source.

  A value as \<^verbatim>\<open>JSON.parse\<close> builds it, by its content. A number is given by the text
  \<^verbatim>\<open>String(n)\<close>, which determines it up to the sign of zero; an object by the list of
  its properties, each name once. The identity of an array or object is not part of the
  value: two arrays of the same content are equal here, though they are two objects for
  the program (see \<open>set_has\<close> below).
\<close>

datatype json =
  JNull | JBool bool | JNum string | JStr string | JArr "json list" | JObj "(string \<times> json) list"

text \<open>
  Truthiness, as \<^verbatim>\<open>||\<close>, \<^verbatim>\<open>&&\<close> and \<^verbatim>\<open>if\<close> test it: \<^verbatim>\<open>null\<close>, \<^verbatim>\<open>false\<close>, zero
  and the empty string are falsy, every array and every object is truthy.
\<close>

fun truthy :: "json \<Rightarrow> bool" where
  "truthy JNull = False"
| "truthy (JBool b) = b"
| "truthy (JNum n) = (n \<noteq> ''0'')"
| "truthy (JStr s) = (s \<noteq> [])"
| "truthy (JArr vs) = True"
| "truthy (JObj obj) = True"

text \<open>Arrays and objects are the values that have an identity.\<close>

fun is_object :: "json \<Rightarrow> bool" where
  "is_object (JArr vs) = True"
| "is_object (JObj obj) = True"
| "is_object v = False"

text \<open>
  What parsing the text captured by one script pattern gives: a syntax error (for
  MangaPark and MangaBuddy, after the retry on the cleaned text has failed as well), a value
  that is not an array, or an array.
\<close>

datatype parsed = SyntaxError | NotAnArray | ImageArray "json list"

text \<open>
  A page record. The methods that scan the text of the document store strings in \<open>url\<close>;
  the methods that read a parsed array store the value they find, whatever its type.
\<close>

record page =
  url :: json
  index :: nat

text \<open>
  \<^verbatim>\<open>img.p\<close> for one of the property names read (\<^verbatim>\<open>url\<close>, \<^verbatim>\<open>src\<close>, \<^verbatim>\<open>path\<close>, \<^verbatim>\<open>i\<close>,
  \<^verbatim>\<open>img\<close>): the property of an object, and \<^verbatim>\<open>undefined\<close> (\<open>None\<close>) when the object
  has no such property or when \<^verbatim>\<open>img\<close> is a number, a boolean or an array. Then
  \<^verbatim>\<open>a || b\<close> on a property value.
\<close>

definition get_prop :: "json \<Rightarrow> string \<Rightarrow> json option" where
  "get_prop img p = (case img of JObj obj \<Rightarrow> map_of obj p | _ \<Rightarrow> None)"

definition js_or_value :: "json option \<Rightarrow> json \<Rightarrow> json" where
  "js_or_value a b = (case a of None \<Rightarrow> b | Some v \<Rightarrow> if truthy v then v else b)"

text \<open>
  \<^verbatim>\<open>imgUrl = typeof img === 'string' ? img : (img.url || img.src || ... || '')\<close> over the
  property names \<open>props\<close>; \<open>None\<close> is the TypeError of reading a property of \<^verbatim>\<open>null\<close>.
  The result is the first truthy property value, of any type.
\<close>

definition img_url :: "string list \<Rightarrow> json \<Rightarrow> json option" where
  "img_url props img =
     (case img of
        JStr s \<Rightarrow> Some (JStr s)
      | JNull \<Rightarrow> None
      | _ \<Rightarrow> Some (foldr (\<lambda>p rest. js_or_value (get_prop img p) rest) props (JStr [])))"

text \<open>
  \<^verbatim>\<open>s.has(v)\<close> on a \<^verbatim>\<open>Set\<close> whose elements are \<open>elems\<close>: strings, numbers and booleans
  are compared by value, arrays and objects by identity. An array or object tested by the
  pipelines is a property value that \<^verbatim>\<open>JSON.parse\<close> has just built, a new object: no
  \<^verbatim>\<open>Set\<close> holds it, whatever its content.
\<close>

definition set_has :: "json set \<Rightarrow> json \<Rightarrow> bool" where
  "set_has elems v = (\<not> is_object v \<and> v \<in> elems)"

section \<open>MangaPark: fetchChapterPages (src/providers/mangapark.js)\<close>

text \<open>
  The file holds two revisions of the class. The model follows the first
  \<^verbatim>\<open>fetchChapterPages\<close>; the second differs from it in how the chapter URL is built and
  in one more replacement (\<^verbatim>\<open>\/\<close> by \<^verbatim>\<open>/\<close>) in method 1, and has the same five methods
  with the same guards.

  The document after \<^verbatim>\<open>fetchHtml\<close>, by the scans of \<^verbatim>\<open>fetchChapterPages\<close>:
  \<^item> \<open>mp_jsonMatches\<close>: capture group 1 of every match of \<^verbatim>\<open>/"url":"([^"]+\.(?:jpg|jpeg|png|webp))"/gi\<close>;
  \<^item> \<open>mp_domainMatches\<close>: every match of the \<^verbatim>\<open>mp....org/media/\<close> pattern;
  \<^item> \<open>mp_imageMatches\<close>: capture groups 1 and 2 of every match of the
    \<^verbatim>\<open>data-src="..."\<close> / \<^verbatim>\<open>src="..."\<close> pattern (the group of the other alternative is absent);
  \<^item> \<open>mp_scriptData\<close>: for each of the six \<^verbatim>\<open>scriptPatterns\<close>, in order, \<open>None\<close> when the
    pattern does not match or captures the empty string, else what parsing the capture gives;
  \<^item> \<open>mp_broadMatches\<close>: every match of the broad image-URL pattern.
\<close>

record mp_document =
  mp_jsonMatches :: "string list"
  mp_domainMatches :: "string list"
  mp_imageMatches :: "(string option \<times> string option) list"
  mp_scriptData :: "parsed option list"
  mp_broadMatches :: "string list"

definition mp_baseUrl :: string where
  "mp_baseUrl = ''https://mangapark.net''"

text \<open>
  Method 1, one match: \<^verbatim>\<open>match[1].replace(/\\u002F/g, '/')\<close>, pushed unless a page with
  that URL is there already. The state is \<open>(pages, index)\<close>.
\<close>

definition mp_method1_step :: "string \<Rightarrow> page list \<times> nat \<Rightarrow> page list \<times> nat" where
  "mp_method1_step m st =
     (case st of (pages, next_index) \<Rightarrow>
        let imageUrl = replace_all (CHR 0x5C # ''u002F'') ''/'' m
        in if imageUrl \<noteq> [] \<and> \<not> list_ex (\<lambda>p. url p = JStr imageUrl) pages
           then (pages @ [\<lparr>url = JStr imageUrl, index = next_index\<rparr>], next_index + 1)
           else (pages, next_index))"

definition mp_method1 :: "mp_document \<Rightarrow> page list \<Rightarrow> page list" where
  "mp_method1 doc pages =
     (if mp_jsonMatches doc \<noteq> [] then fst (fold mp_method1_step (mp_jsonMatches doc) (pages, 1))
      else pages)"

text \<open>
  The push shared by methods 2 to 5, on the state \<open>(pages, existingUrls, index)\<close>:
  \<^verbatim>\<open>
    if (!existingUrls.has(u)) { existingUrls.add(u); pages.push({ url: u, index: index++ }); }
  \<close>
\<close>

definition mp_push :: "json \<Rightarrow> page list \<times> json set \<times> nat \<Rightarrow> page list \<times> json set \<times> nat" where
  "mp_push u st =
     (case st of (pages, existingUrls, next_index) \<Rightarrow>
        if \<not> set_has existingUrls u
        then (pages @ [\<lparr>url = u, index = next_index\<rparr>], insert u existingUrls, next_index + 1)
        else (pages, existingUrls, next_index))"

text \<open>
  Method 2 is not guarded by \<^verbatim>\<open>pages.length === 0\<close>: it starts from the pages of method 1,
  with \<^verbatim>\<open>existingUrls = new Set(pages.map(p => p.url))\<close> and \<^verbatim>\<open>index = pages.length + 1\<close>.
\<close>

definition mp_method2 :: "mp_document \<Rightarrow> page list \<Rightarrow> page list" where
  "mp_method2 doc pages =
     (if mp_domainMatches doc \<noteq> [] then
        fst (fold (\<lambda>imageUrl st. if imageUrl \<noteq> [] then mp_push (JStr imageUrl) st else st)
               (mp_domainMatches doc) (pages, set (map url pages), length pages + 1))
      else pages)"

definition mp_method3_step ::
  "string option \<times> string option \<Rightarrow> page list \<times> json set \<times> nat \<Rightarrow> page list \<times> json set \<times> nat" where
  "mp_method3_step m st =
     (let imageUrl = (case m of (g1, g2) \<Rightarrow> js_or g1 (js_or g2 []))
      in if imageUrl = [] then st
         else if includes_str imageUrl ''avatar'' \<or> includes_str imageUrl ''icon''
                 \<or> includes_str imageUrl ''logo'' \<or> includes_str imageUrl ''banner'' then st
         else if ext_then_query_or_end imageUrl then
           (let fullUrl = (if startsWith imageUrl ''http'' then imageUrl
                           else if startsWith imageUrl ''/'' then mp_baseUrl @ imageUrl
                           else mp_baseUrl @ ''/'' @ imageUrl)
            in mp_push (JStr fullUrl) st)
         else st)"

definition mp_method3 :: "mp_document \<Rightarrow> page list \<Rightarrow> page list" where
  "mp_method3 doc pages =
     (if pages = [] then
        (if mp_imageMatches doc \<noteq> [] then
           fst (fold mp_method3_step (mp_imageMatches doc) (pages, set (map url pages), length pages + 1))
         else pages)
      else pages)"

text \<open>
  Method 4, the loop over \<^verbatim>\<open>imgData\<close>. The flag tells whether the loop was left by the
  TypeError of reading a property of \<^verbatim>\<open>null\<close>; the pages pushed before it stay.
\<close>

fun mp_add_images ::
  "json list \<Rightarrow> page list \<times> json set \<times> nat \<Rightarrow> (page list \<times> json set \<times> nat) \<times> bool" where
  "mp_add_images [] st = (st, False)"
| "mp_add_images (img # rest) st =
     (case img_url [''url'', ''src'', ''path'', ''i'', ''img''] img of
        None \<Rightarrow> (st, True)
      | Some imgUrl \<Rightarrow> mp_add_images rest (if truthy imgUrl then mp_push imgUrl st else st))"

text \<open>
  Method 4, the loop over the script patterns: an exception is caught and the loop goes on
  with the next pattern; \<^verbatim>\<open>if (pages.length > 0) break\<close> ends it after an array that was
  read to its end.
\<close>

fun mp_scripts :: "parsed option list \<Rightarrow> page list \<Rightarrow> page list" where
  "mp_scripts [] pages = pages"
| "mp_scripts (scriptMatch # rest) pages =
     (case scriptMatch of
        Some (ImageArray imgData) \<Rightarrow>
          if imgData \<noteq> [] then
            (case mp_add_images imgData (pages, set (map url pages), length pages + 1) of
               ((pages', existingUrls, next_index), threw) \<Rightarrow>
                 if threw then mp_scripts rest pages'
                 else if pages' \<noteq> [] then pages'
                 else mp_scripts rest pages')
          else mp_scripts rest pages
      | _ \<Rightarrow> mp_scripts rest pages)"

definition mp_method4 :: "mp_document \<Rightarrow> page list \<Rightarrow> page list" where
  "mp_method4 doc pages = (if pages = [] then mp_scripts (mp_scriptData doc) pages else pages)"

definition mp_method5_step :: "string \<Rightarrow> page list \<times> json set \<times> nat \<Rightarrow> page list \<times> json set \<times> nat" where
  "mp_method5_step m st =
     (let imageUrl = trim m
      in if imageUrl = [] \<or> includes_str imageUrl ''avatar'' \<or> includes_str imageUrl ''icon''
            \<or> includes_str imageUrl ''logo'' \<or> includes_str imageUrl ''banner''
            \<or> (includes_str imageUrl ''thumb'' \<and> includes_str imageUrl ''small'') then st
         else mp_push (JStr imageUrl) st)"

definition mp_method5 :: "mp_document \<Rightarrow> page list \<Rightarrow> page list" where
  "mp_method5 doc pages =
     (if pages = [] then
        (if mp_broadMatches doc \<noteq> [] then
           fst (fold mp_method5_step (mp_broadMatches doc) (pages, {}, 1))
         else pages)
      else pages)"

text \<open>
  \<^verbatim>\<open>fetchChapterPages\<close> from the fetched document on: the five methods in order on the
  one \<^verbatim>\<open>pages\<close> array, then \<^verbatim>\<open>pages.sort((a, b) => a.index - b.index)\<close> (a stable sort).
\<close>

definition mp_fetchChapterPages :: "mp_document \<Rightarrow> page list" where
  "mp_fetchChapterPages doc =
     (let pages = [];
          pages = mp_method1 doc pages;
          pages = mp_method2 doc pages;
          pages = mp_method3 doc pages;
          pages = mp_method4 doc pages;
          pages = mp_method5 doc pages
      in sort_key index pages)"

section \<open>MangaBuddy: fetchChapterPages (unnamed/part_001)\<close>

text \<open>
  The document by the scans of MangaBuddy's \<^verbatim>\<open>fetchChapterPages\<close>:
  \<^item> \<open>mb_commaListMatches\<close>: every match of the comma-separated-list pattern;
  \<^item> \<open>mb_lazyImages\<close>: the \<^verbatim>\<open>data-src\<close> and \<^verbatim>\<open>src\<close> attributes of every element selected
    by \<^verbatim>\<open>'.chapter-lazy-image, .chapter-images img, .chapter-image'\<close>;
  \<^item> \<open>mb_domainMatches\<close>: every match of the \<^verbatim>\<open>mbcdn\<close> pattern;
  \<^item> \<open>mb_jsonMatches\<close>: capture group 1 of every match of the \<^verbatim>\<open>"url":"..."\<close> pattern;
  \<^item> \<open>mb_scriptData\<close>: as for MangaPark, for the six \<^verbatim>\<open>scriptPatterns\<close>;
  \<^item> \<open>mb_broadMatches\<close>: every match of the broad image-URL pattern.
  \<^verbatim>\<open>uniqueUrls\<close> is a \<^verbatim>\<open>Set\<close>, which keeps insertion order: the list of its elements.
\<close>

record mb_document =
  mb_commaListMatches :: "string list"
  mb_lazyImages :: "(string option \<times> string option) list"
  mb_domainMatches :: "string list"
  mb_jsonMatches :: "string list"
  mb_scriptData :: "parsed option list"
  mb_broadMatches :: "string list"

text \<open>\<^verbatim>\<open>if (!uniqueUrls.has(u)) uniqueUrls.add(u)\<close>\<close>

definition set_add :: "json \<Rightarrow> json list \<Rightarrow> json list" where
  "set_add u uniqueUrls = (if set_has (set uniqueUrls) u then uniqueUrls else uniqueUrls @ [u])"

definition mb_method1_url :: "string \<Rightarrow> json list \<Rightarrow> json list" where
  "mb_method1_url u uniqueUrls =
     (if u \<noteq> [] \<and> trim u \<noteq> [] \<and> \<not> includes_str u ''avatar'' \<and> \<not> includes_str u ''icon''
         \<and> \<not> includes_str u ''thumb.''
      then set_add (JStr (trim u)) uniqueUrls else uniqueUrls)"

definition mb_method1 :: "mb_document \<Rightarrow> json list \<Rightarrow> json list" where
  "mb_method1 doc uniqueUrls =
     (if mb_commaListMatches doc \<noteq> [] then
        fold (\<lambda>m. fold mb_method1_url (split_comma m)) (mb_commaListMatches doc) uniqueUrls
      else uniqueUrls)"

text \<open>Method 2 is not guarded by \<^verbatim>\<open>uniqueUrls.size === 0\<close>: it always runs.\<close>

definition mb_method2_step :: "string option \<times> string option \<Rightarrow> json list \<Rightarrow> json list" where
  "mb_method2_step el uniqueUrls =
     (let src = (case el of (dataSrc, srcAttr) \<Rightarrow> js_or dataSrc (js_or srcAttr []))
      in if src \<noteq> [] \<and> \<not> includes_str src ''/static/common/x.gif''
            \<and> \<not> includes_str src ''thumb.'' \<and> \<not> includes_str src ''thumbnail.'' then
           (if includes_str src '','' then
              fold (\<lambda>u uniqueUrls. if u \<noteq> [] \<and> trim u \<noteq> [] then set_add (JStr (trim u)) uniqueUrls
                                     else uniqueUrls)
                (split_comma src) uniqueUrls
            else set_add (JStr src) uniqueUrls)
         else uniqueUrls)"

definition mb_method2 :: "mb_document \<Rightarrow> json list \<Rightarrow> json list" where
  "mb_method2 doc uniqueUrls = fold mb_method2_step (mb_lazyImages doc) uniqueUrls"

definition mb_method3 :: "mb_document \<Rightarrow> json list \<Rightarrow> json list" where
  "mb_method3 doc uniqueUrls =
     (if uniqueUrls = [] then
        fold (\<lambda>imageUrl uniqueUrls. if imageUrl \<noteq> [] then set_add (JStr imageUrl) uniqueUrls else uniqueUrls)
          (mb_domainMatches doc) uniqueUrls
      else uniqueUrls)"

definition mb_method4 :: "mb_document \<Rightarrow> json list \<Rightarrow> json list" where
  "mb_method4 doc uniqueUrls =
     (if uniqueUrls = [] then
        fold (\<lambda>m uniqueUrls.
                let imageUrl = replace_all [CHR 0x5C, CHR ''/''] ''/''
                                 (replace_all (CHR 0x5C # ''u002F'') ''/'' m)
                in if imageUrl \<noteq> [] then set_add (JStr imageUrl) uniqueUrls else uniqueUrls)
          (mb_jsonMatches doc) uniqueUrls
      else uniqueUrls)"

text \<open>
  The loop over a parsed array for the property names \<open>props\<close>, shared with MangaKakalot;
  the flag tells whether it was left by the TypeError on \<^verbatim>\<open>null\<close>.
\<close>

fun add_images :: "string list \<Rightarrow> json list \<Rightarrow> json list \<Rightarrow> json list \<times> bool" where
  "add_images props [] uniqueUrls = (uniqueUrls, False)"
| "add_images props (img # rest) uniqueUrls =
     (case img_url props img of
        None \<Rightarrow> (uniqueUrls, True)
      | Some imgUrl \<Rightarrow>
          add_images props rest (if truthy imgUrl then set_add imgUrl uniqueUrls else uniqueUrls))"

fun mb_scripts :: "parsed option list \<Rightarrow> json list \<Rightarrow> json list" where
  "mb_scripts [] uniqueUrls = uniqueUrls"
| "mb_scripts (scriptMatch # rest) uniqueUrls =
     (case scriptMatch of
        Some (ImageArray imgData) \<Rightarrow>
          if imgData \<noteq> [] then
            (case add_images [''url'', ''src'', ''path'', ''i'', ''img''] imgData uniqueUrls of
               (uniqueUrls', threw) \<Rightarrow>
                 if threw then mb_scripts rest uniqueUrls'
                 else if uniqueUrls' \<noteq> [] then uniqueUrls'
                 else mb_scripts rest uniqueUrls')
          else mb_scripts rest uniqueUrls
      | _ \<Rightarrow> mb_scripts rest uniqueUrls)"

definition mb_method5 :: "mb_document \<Rightarrow> json list \<Rightarrow> json list" where
  "mb_method5 doc uniqueUrls =
     (if uniqueUrls = [] then mb_scripts (mb_scriptData doc) uniqueUrls else uniqueUrls)"

definition mb_method6 :: "mb_document \<Rightarrow> json list \<Rightarrow> json list" where
  "mb_method6 doc uniqueUrls =
     (if uniqueUrls = [] then
        fold (\<lambda>m uniqueUrls.
                let imageUrl = trim m
                in if imageUrl = [] \<or> includes_str imageUrl ''avatar'' \<or> includes_str imageUrl ''icon''
                      \<or> includes_str imageUrl ''logo'' \<or> includes_str imageUrl ''banner''
                      \<or> (includes_str imageUrl ''thumb'' \<and> includes_str imageUrl ''small'')
                   then uniqueUrls
                   else set_add (JStr imageUrl) uniqueUrls)
          (mb_broadMatches doc) uniqueUrls
      else uniqueUrls)"

text \<open>
  \<^verbatim>\<open>Array.from(uniqueUrls).map((url, index) => ({ url, index: index + 1 }))\<close>, shared with
  MangaKakalot.
\<close>

definition to_pages :: "json list \<Rightarrow> page list" where
  "to_pages urls = map (\<lambda>(i, u). \<lparr>url = u, index = i + 1\<rparr>) (enumerate 0 urls)"

definition mb_fetchChapterPages :: "mb_document \<Rightarrow> page list" where
  "mb_fetchChapterPages doc =
     (let uniqueUrls = [];
          uniqueUrls = mb_method1 doc uniqueUrls;
          uniqueUrls = mb_method2 doc uniqueUrls;
          uniqueUrls = mb_method3 doc uniqueUrls;
          uniqueUrls = mb_method4 doc uniqueUrls;
          uniqueUrls = mb_method5 doc uniqueUrls;
          uniqueUrls = mb_method6 doc uniqueUrls
      in sort_key index (to_pages uniqueUrls))"

text \<open>
  The URLs that methods 1 and 2 pass to \<^verbatim>\<open>uniqueUrls.has\<close>, in the order of the loops:
  for method 1 the trimmed members of every comma-separated list that pass its test, for
  method 2 the attribute of every selected element that passes its test, split at the
  commas when it has one. \<open>first_seen\<close> keeps the first occurrence of every element of a
  list, in the order of the list.
\<close>

definition mb_method1_candidates :: "mb_document \<Rightarrow> string list" where
  "mb_method1_candidates doc =
     concat (map (\<lambda>m. map trim
                         (filter (\<lambda>u. u \<noteq> [] \<and> trim u \<noteq> [] \<and> \<not> includes_str u ''avatar''
                                      \<and> \<not> includes_str u ''icon'' \<and> \<not> includes_str u ''thumb.'')
                            (split_comma m)))
               (mb_commaListMatches doc))"

definition mb_method2_candidates :: "mb_document \<Rightarrow> string list" where
  "mb_method2_candidates doc =
     concat (map (\<lambda>el.
                    let src = (case el of (dataSrc, srcAttr) \<Rightarrow> js_or dataSrc (js_or srcAttr []))
                    in if src \<noteq> [] \<and> \<not> includes_str src ''/static/common/x.gif''
                          \<and> \<not> includes_str src ''thumb.'' \<and> \<not> includes_str src ''thumbnail.'' then
                         (if includes_str src '','' then
                            map trim (filter (\<lambda>u. u \<noteq> [] \<and> trim u \<noteq> []) (split_comma src))
                          else [src])
                       else [])
               (mb_lazyImages doc))"

definition first_seen :: "'a list \<Rightarrow> 'a list" where
  "first_seen xs = rev (remdups (rev xs))"

section \<open>MangaKakalot: fetchChapterPages (unnamed/part_000)\<close>

text \<open>
  The document by the scans of MangaKakalot's \<^verbatim>\<open>fetchChapterPages\<close>:
  \<^item> \<open>mk_readerImages\<close>: the \<^verbatim>\<open>src\<close> and \<^verbatim>\<open>data-src\<close> attributes of every
    \<^verbatim>\<open>.container-chapter-reader img\<close>;
  \<^item> \<open>mk_imgMatches\<close>: every match of the image-URL pattern in the raw text;
  \<^item> \<open>mk_scripts\<close>: for every \<^verbatim>\<open>script\<close> element and each of the six \<^verbatim>\<open>arrayPatterns\<close>,
    \<open>None\<close> when the pattern does not match or captures nothing, else what
    \<^verbatim>\<open>JSON.parse\<close> gives on the capture.
\<close>

record mk_document =
  mk_readerImages :: "(string option \<times> string option) list"
  mk_imgMatches :: "string list"
  mk_scripts :: "parsed option list list"

definition mk_method1 :: "mk_document \<Rightarrow> json list \<Rightarrow> json list" where
  "mk_method1 doc uniqueUrls =
     fold (\<lambda>el uniqueUrls.
             let imageUrl = (case el of (srcAttr, dataSrc) \<Rightarrow> js_or srcAttr (js_or dataSrc []))
             in if imageUrl \<noteq> [] \<and> \<not> includes_str imageUrl ''thumb.''
                   \<and> \<not> includes_str imageUrl ''logo'' \<and> \<not> includes_str imageUrl ''icon''
                then set_add (JStr imageUrl) uniqueUrls else uniqueUrls)
       (mk_readerImages doc) uniqueUrls"

definition mk_method2 :: "mk_document \<Rightarrow> json list \<Rightarrow> json list" where
  "mk_method2 doc uniqueUrls =
     (if uniqueUrls = [] then
        fold (\<lambda>imgUrl uniqueUrls.
                if imgUrl \<noteq> [] \<and> \<not> includes_str imgUrl ''thumb.'' \<and> \<not> includes_str imgUrl ''logo''
                   \<and> \<not> includes_str imgUrl ''icon'' \<and> \<not> includes_str imgUrl ''avatars''
                then set_add (JStr imgUrl) uniqueUrls else uniqueUrls)
          (mk_imgMatches doc) uniqueUrls
      else uniqueUrls)"

text \<open>
  Method 3, the loop over the patterns for one script. A parse error or the TypeError is
  caught and the loop goes on; after a capture that parsed, whether an array or not,
  \<^verbatim>\<open>if (uniqueUrls.size > 0) break\<close> ends the loop for this script only.
\<close>

fun mk_patterns :: "parsed option list \<Rightarrow> json list \<Rightarrow> json list" where
  "mk_patterns [] uniqueUrls = uniqueUrls"
| "mk_patterns (m # rest) uniqueUrls =
     (case m of
        None \<Rightarrow> mk_patterns rest uniqueUrls
      | Some SyntaxError \<Rightarrow> mk_patterns rest uniqueUrls
      | Some NotAnArray \<Rightarrow> if uniqueUrls \<noteq> [] then uniqueUrls else mk_patterns rest uniqueUrls
      | Some (ImageArray images) \<Rightarrow>
          (case add_images [''url'', ''src'', ''path'', ''img''] images uniqueUrls of
             (uniqueUrls', threw) \<Rightarrow>
               if threw then mk_patterns rest uniqueUrls'
               else if uniqueUrls' \<noteq> [] then uniqueUrls'
               else mk_patterns rest uniqueUrls'))"

definition mk_method3 :: "mk_document \<Rightarrow> json list \<Rightarrow> json list" where
  "mk_method3 doc uniqueUrls =
     (if uniqueUrls = [] then fold mk_patterns (mk_scripts doc) uniqueUrls else uniqueUrls)"

text \<open>
  The end of \<^verbatim>\<open>fetchChapterPages\<close>:
  \<^verbatim>\<open>
    Array.from(uniqueUrls).filter(url => url.match(/.../i) && !url.includes('avatar') && ...)
  \<close>
  Only a string has the method \<^verbatim>\<open>match\<close>: on any other element of the \<^verbatim>\<open>Set\<close> the
  call throws a TypeError (its text is the engine's), which the \<^verbatim>\<open>catch\<close> around the
  whole method turns into an \<^verbatim>\<open>Error\<close>.
\<close>

definition mk_fetchChapterPages :: "mk_document \<Rightarrow> char error + page list" where
  "mk_fetchChapterPages doc =
     (let uniqueUrls = [];
          uniqueUrls = mk_method1 doc uniqueUrls;
          uniqueUrls = mk_method2 doc uniqueUrls;
          uniqueUrls = mk_method3 doc uniqueUrls
      in if list_ex (\<lambda>v. case v of JStr u \<Rightarrow> False | _ \<Rightarrow> True) uniqueUrls then
           Inl (Error [Lit ''Failed to fetch chapter pages from MangaKakalot: '',
                       Lit ''url.match is not a function''])
         else
           (let pages = to_pages
                          (filter (\<lambda>v. case v of
                                          JStr u \<Rightarrow> ext_at_end u \<and> \<not> includes_str u ''avatar''
                                            \<and> \<not> includes_str u ''logo'' \<and> \<not> includes_str u ''banner''
                                        | _ \<Rightarrow> False)
                             uniqueUrls)
            in Inr (sort_key index pages)))"

section \<open>Chapter lists\<close>

text \<open>
  A chapter record as both providers build it. \<open>number\<close> is a string in the source;
  \<open>generated\<close> is a property that only MangaPark's synthesized chapters have.
\<close>

record chapter_record =
  chapter_id :: string
  chapter_title :: string
  number :: string
  chapter_url :: string
  date :: string
  generated :: "bool option"


definition parseInt :: "string \<Rightarrow> nat" where
  "parseInt s = foldl (\<lambda>n c. 10 * n + ((of_char c :: nat) - 48)) 0 s"

function string_of_nat :: "nat \<Rightarrow> string" where
  "string_of_nat n =
     (if n < 10 then [char_of (48 + n)]
      else string_of_nat (n div 10) @ [char_of (48 + n mod 10)])"
  by pat_completeness auto
termination
  by (relation "measure id") auto

declare string_of_nat.simps [simp del]

subsection \<open>MangaBuddy: getMangaInfo (unnamed/part_001, first class)\<close>

text \<open>
  The latest chapter number. \<open>chapterCountMatch\<close> is capture group 1 of
  \<^verbatim>\<open>/CHAPTERS\s*\((\d+)\)/i\<close> when the pattern matches; \<open>chapterMatches\<close> are the capture
  groups 1 of all matches of \<^verbatim>\<open>/href="\/[^"]+\/chapter-(\d+)"/g\<close>. Both are digit strings.
\<close>

definition mb_latestChapter :: "string option \<Rightarrow> string list \<Rightarrow> nat" where
  "mb_latestChapter chapterCountMatch chapterMatches =
     (case chapterCountMatch of
        Some digits \<Rightarrow> parseInt digits
      | None \<Rightarrow>
          fold (\<lambda>m latestChapter. let num = parseInt m in if num > latestChapter then num else latestChapter)
            chapterMatches 1)"

definition mb_baseUrl :: string where
  "mb_baseUrl = ''https://mangabuddy.com''"

text \<open>
  The chapter list of \<^verbatim>\<open>getMangaInfo\<close>. \<^verbatim>\<open>new Array(chaptersCount)\<close> throws a RangeError
  unless its argument is an integer below \<open>2\<^sup>3\<^sup>2\<close>; the \<^verbatim>\<open>catch\<close> around the whole method
  turns it into an \<^verbatim>\<open>Error\<close> (the text \<^verbatim>\<open>Invalid array length\<close> is the engine's).
  Otherwise the loop \<^verbatim>\<open>for (let i = 0; i < chaptersCount; i++)\<close> fills \<^verbatim>\<open>chapters[i]\<close> with
  chapter \<^verbatim>\<open>latestChapter - i\<close>.

  \<^verbatim>\<open>parseInt\<close> gives a double: it is the number written when that is below \<open>2\<^sup>5\<^sup>3\<close>, and
  for a longer numeral a double (or \<^verbatim>\<open>Infinity\<close>) that is not below \<open>2\<^sup>3\<^sup>2\<close> either, so
  the test on the natural number decides as the source does, and below \<open>2\<^sup>3\<^sup>2\<close> the
  numbers are exact. Running out of memory while the list is built is not a behaviour of
  the language and is not modelled.
\<close>

definition mb_getMangaInfo_chapters ::
  "string \<Rightarrow> string option \<Rightarrow> string list \<Rightarrow> char error + chapter_record list" where
  "mb_getMangaInfo_chapters mangaId chapterCountMatch chapterMatches =
     (let latestChapter = mb_latestChapter chapterCountMatch chapterMatches;
          chaptersCount = latestChapter
      in if chaptersCount \<ge> 2 ^ 32 then
           Inl (Error [Lit ''Failed to get manga info: '', Lit ''Invalid array length''])
         else
           (let urlPrefix = mb_baseUrl @ ''/'' @ mangaId @ ''/chapter-''
            in Inr (map (\<lambda>i. let chapterNum = latestChapter - i
                             in \<lparr>chapter_id = ''chapter-'' @ string_of_nat chapterNum,
                                 chapter_title = ''Chapter '' @ string_of_nat chapterNum,
                                 number = string_of_nat chapterNum,
                                 chapter_url = urlPrefix @ string_of_nat chapterNum,
                                 date = (if chapterNum = latestChapter then ''Recent'' else ''Unknown''),
                                 generated = None\<rparr>)
                      [0..<chaptersCount])))"

subsection \<open>MangaPark: the gap filling of getMangaInfo (src/providers/mangapark.js, second class)\<close>













section \<open>Invariants of the page lists\<close>

text \<open>
  \<open>distinct_values\<close>: the strings, numbers and booleans of a list are pairwise distinct
  (arrays and objects, which a \<^verbatim>\<open>Set\<close> tells apart by identity, are not looked at). A page
  list is numbered when its URLs are distinct in this sense and its indices are
  \<open>1, 2, ..., n\<close> in this order. \<open>push_state\<close> is the invariant of the loops of
  MangaPark's methods on \<open>(pages, existingUrls, index)\<close>.
\<close>

definition distinct_values :: "json list \<Rightarrow> bool" where
  "distinct_values vs \<longleftrightarrow> distinct (filter (\<lambda>v. \<not> is_object v) vs)"

definition numbered :: "page list \<Rightarrow> bool" where
  "numbered pages \<longleftrightarrow>
     distinct_values (map url pages) \<and> map index pages = [1..<Suc (length pages)]"

definition push_state :: "page list \<times> json set \<times> nat \<Rightarrow> bool" where
  "push_state st \<longleftrightarrow>
     (case st of (pages, existingUrls, next_index) \<Rightarrow>
        numbered pages \<and> existingUrls = set (map url pages) \<and> next_index = length pages + 1)"

section \<open>Theorems\<close>

subsection \<open>The Levenshtein recursion\<close>

lemma levenshtein_Nil2 [simp]: "levenshtein xs [] = length xs"
  by (cases xs) simp_all

lemma levenshtein_sym: "levenshtein xs ys = levenshtein ys xs"
  by (induction xs ys rule: levenshtein.induct) (simp_all add: min.commute)

subsection \<open>The loops of editDistance compute it\<close>

lemma lev_single_l:
  "levenshtein [a] (ys @ [b]) =
     min (min (length ys + 2) (levenshtein [a] ys + 1)) (length ys + (if a = b then 0 else 1))"
proof (induction ys)
  case Nil show ?case by simp
next
  case (Cons y ys)
  show ?case using Cons by (simp split: if_splits) linarith?
qed

lemma lev_single_r:
  "levenshtein (xs @ [a]) [b] =
     min (min (levenshtein xs [b] + 1) (length xs + 2)) (length xs + (if a = b then 0 else 1))"
proof (induction xs)
  case Nil show ?case by simp
next
  case (Cons x xs)
  show ?case using Cons by (simp split: if_splits) linarith?
qed

lemma levenshtein_snoc:
  "levenshtein (xs @ [a]) (ys @ [b]) =
     min (min (levenshtein xs (ys @ [b]) + 1) (levenshtein (xs @ [a]) ys + 1))
         (levenshtein xs ys + (if a = b then 0 else 1))"
proof (induction xs ys rule: levenshtein.induct)
  case (1 ys)
  show ?case using lev_single_l [of a ys b] by simp
next
  case (2 x xs)
  show ?case using lev_single_r [of "x # xs" a b] by simp
next
  case (3 x xs y ys)
  let ?d = "if a = b then 0 else 1::nat"
  let ?e = "if x = y then 0 else 1::nat"
  have A: "levenshtein (xs @ [a]) (y # ys @ [b]) =
      min (min (levenshtein xs (y # ys @ [b]) + 1) (levenshtein (xs @ [a]) (y # ys) + 1))
          (levenshtein xs (y # ys) + ?d)"
    using 3(1) by simp
  have B: "levenshtein (x # xs @ [a]) (ys @ [b]) =
      min (min (levenshtein (x # xs) (ys @ [b]) + 1) (levenshtein (x # xs @ [a]) ys + 1))
          (levenshtein (x # xs) ys + ?d)"
    using 3(2) by simp
  have C: "levenshtein (xs @ [a]) (ys @ [b]) =
      min (min (levenshtein xs (ys @ [b]) + 1) (levenshtein (xs @ [a]) ys + 1))
          (levenshtein xs ys + ?d)"
    using 3(3) by simp
  have L: "levenshtein ((x # xs) @ [a]) ((y # ys) @ [b]) =
      min (min (levenshtein (xs @ [a]) (y # ys @ [b]) + 1) (levenshtein (x # xs @ [a]) (ys @ [b]) + 1))
          (levenshtein (xs @ [a]) (ys @ [b]) + ?e)"
    by simp
  have R1: "levenshtein (x # xs) ((y # ys) @ [b]) =
      min (min (levenshtein xs (y # ys @ [b]) + 1) (levenshtein (x # xs) (ys @ [b]) + 1))
          (levenshtein xs (ys @ [b]) + ?e)"
    by simp
  have R2: "levenshtein ((x # xs) @ [a]) (y # ys) =
      min (min (levenshtein (xs @ [a]) (y # ys) + 1) (levenshtein (x # xs @ [a]) ys + 1))
          (levenshtein (xs @ [a]) ys + ?e)"
    by simp
  have R3: "levenshtein (x # xs) (y # ys) =
      min (min (levenshtein xs (y # ys) + 1) (levenshtein (x # xs) ys + 1))
          (levenshtein xs ys + ?e)"
    by simp
  show ?case
    unfolding L R1 R2 R3 unfolding A B C
    by (simp only: min_add_distrib_left min_add_distrib_right add.assoc min.assoc min.commute min.left_commute add.commute add.left_commute)
qed

lemma levenshtein_rev: "levenshtein (rev xs) (rev ys) = levenshtein xs ys"
proof (induction xs ys rule: levenshtein.induct)
  case (3 x xs y ys)
  then show ?case
    using levenshtein_snoc [of "rev xs" x "rev ys" y] by simp
qed simp_all

lemma levenshtein_Cons2_le: "levenshtein xs (y # ys) \<le> levenshtein xs ys + 1"
  by (cases xs) simp_all

lemma levenshtein_Cons1_ge: "levenshtein xs ys \<le> levenshtein (x # xs) ys + 1"
proof (induction ys arbitrary: xs x)
  case Nil
  show ?case by simp
next
  case (Cons y ys)
  have "levenshtein xs (y # ys) \<le> levenshtein xs ys + 1"
    by (rule levenshtein_Cons2_le)
  moreover have "levenshtein xs ys \<le> levenshtein (x # xs) ys + 1"
    by (rule Cons.IH)
  ultimately show ?case by simp
qed

lemma levenshtein_Cons2_ge: "levenshtein xs ys \<le> levenshtein xs (y # ys) + 1"
  using levenshtein_Cons1_ge [of ys xs y] by (simp add: levenshtein_sym)

lemma levenshtein_Cons_Cons:
  "levenshtein (x # xs) (y # ys) =
     (if x = y then levenshtein xs ys
      else min (min (levenshtein xs ys) (levenshtein (x # xs) ys)) (levenshtein xs (y # ys)) + 1)"
proof (cases "x = y")
  case True
  then show ?thesis
    using levenshtein_Cons1_ge [of xs ys y] levenshtein_Cons2_ge [of xs ys y] by simp
next
  case False
  then show ?thesis
    by (simp add: min.assoc min.commute min.left_commute)
qed

lemma levenshtein_snoc_snoc:
  "levenshtein (xs @ [a]) (ys @ [b]) =
     (if a = b then levenshtein xs ys
      else min (min (levenshtein xs ys) (levenshtein (xs @ [a]) ys)) (levenshtein xs (ys @ [b])) + 1)"
proof -
  have "levenshtein (xs @ [a]) (ys @ [b]) = levenshtein (a # rev xs) (b # rev ys)"
    using levenshtein_rev [of "xs @ [a]" "ys @ [b]"] by simp
  also have "\<dots> = (if a = b then levenshtein (rev xs) (rev ys)
      else min (min (levenshtein (rev xs) (rev ys)) (levenshtein (a # rev xs) (rev ys)))
               (levenshtein (rev xs) (b # rev ys)) + 1)"
    by (rule levenshtein_Cons_Cons)
  also have "\<dots> = (if a = b then levenshtein xs ys
      else min (min (levenshtein xs ys) (levenshtein (xs @ [a]) ys)) (levenshtein xs (ys @ [b])) + 1)"
    using levenshtein_rev [of xs ys] levenshtein_rev [of "xs @ [a]" ys]
      levenshtein_rev [of xs "ys @ [b]"] by simp
  finally show ?thesis .
qed

lemma row0_fold:
  "fold (editDistance_inner s1 s2 0) [0..<k] ([], l) = ([0..<k], l)"
  by (induction k) (simp_all add: editDistance_inner_def arr_set_def)

lemma editDistance_outer_0: "editDistance_outer s1 s2 0 [] = [0..<Suc (length s2)]"
  unfolding editDistance_outer_def by (simp only: row0_fold) simp

lemma pd_0_left: "pd s1 s2 0 j = min j (length s2)"
  by (simp add: pd_def min.commute)

lemma pd_0_right: "pd s1 s2 i 0 = min i (length s1)"
  by (simp add: pd_def min.commute)

lemma pd_Suc_Suc:
  assumes "i < length s1" "j < length s2"
  shows "pd s1 s2 (Suc i) (Suc j) =
     (if s1 ! i = s2 ! j then pd s1 s2 i j
      else min (min (pd s1 s2 i j) (pd s1 s2 (Suc i) j)) (pd s1 s2 i (Suc j)) + 1)"
  using assms levenshtein_snoc_snoc [of "take i s1" "s1 ! i" "take j s2" "s2 ! j"]
  by (simp add: pd_def take_Suc_conv_app_nth)

lemma inner_fold:
  assumes i: "0 < i" "i \<le> length s1"
    and len: "length row = Suc (length s2)"
    and row: "\<forall>k\<le>length s2. row ! k = pd s1 s2 (i - 1) k"
    and j: "j \<le> length s2"
  shows "\<exists>costs. fold (editDistance_inner s1 s2 i) [0..<Suc j] (row, i) = (costs, pd s1 s2 i j)
           \<and> length costs = Suc (length s2)
           \<and> (\<forall>k<j. costs ! k = pd s1 s2 i k)
           \<and> (\<forall>k. j \<le> k \<and> k \<le> length s2 \<longrightarrow> costs ! k = pd s1 s2 (i - 1) k)"
  using j
proof (induction j)
  case 0
  show ?case using i len row by (simp add: editDistance_inner_def pd_0_right)
next
  case (Suc j)
  then obtain costs where c:
    "fold (editDistance_inner s1 s2 i) [0..<Suc j] (row, i) = (costs, pd s1 s2 i j)"
    "length costs = Suc (length s2)"
    "\<forall>k<j. costs ! k = pd s1 s2 i k"
    "\<forall>k. j \<le> k \<and> k \<le> length s2 \<longrightarrow> costs ! k = pd s1 s2 (i - 1) k"
    by auto
  obtain i' where i': "i = Suc i'" using i by (cases i) auto
  have cj: "costs ! j = pd s1 s2 i' j" and cSj: "costs ! Suc j = pd s1 s2 i' (Suc j)"
    using c(4) Suc.prems i' by auto
  have rec: "pd s1 s2 i (Suc j) =
     (if s1 ! i' = s2 ! j then pd s1 s2 i' j
      else min (min (pd s1 s2 i' j) (pd s1 s2 i j)) (pd s1 s2 i' (Suc j)) + 1)"
    using pd_Suc_Suc [of i' s1 j s2] i Suc.prems i' by simp
  have step: "fold (editDistance_inner s1 s2 i) [0..<Suc (Suc j)] (row, i)
      = editDistance_inner s1 s2 i (Suc j) (costs, pd s1 s2 i j)"
    using c(1) by (simp del: upt_Suc add: upt_Suc_append [of 0 "Suc j"])
  have val: "editDistance_inner s1 s2 i (Suc j) (costs, pd s1 s2 i j)
      = (costs[j := pd s1 s2 i j], pd s1 s2 i (Suc j))"
    using c(2) Suc.prems i' cj cSj rec
    by (simp add: editDistance_inner_def arr_set_def Let_def)
  show ?case
    unfolding step val using c(2,3,4) Suc.prems
    by (auto simp: nth_list_update less_Suc_eq)
qed

lemma editDistance_outer_Suc:
  assumes i: "0 < i" "i \<le> length s1"
    and len: "length row = Suc (length s2)"
    and row: "\<forall>k\<le>length s2. row ! k = pd s1 s2 (i - 1) k"
  shows "length (editDistance_outer s1 s2 i row) = Suc (length s2)
       \<and> (\<forall>k\<le>length s2. editDistance_outer s1 s2 i row ! k = pd s1 s2 i k)"
proof -
  obtain costs where c:
    "fold (editDistance_inner s1 s2 i) [0..<Suc (length s2)] (row, i)
       = (costs, pd s1 s2 i (length s2))"
    "length costs = Suc (length s2)"
    "\<forall>k<length s2. costs ! k = pd s1 s2 i k"
    using inner_fold [OF i len row, of "length s2"] by auto
  have "editDistance_outer s1 s2 i row = costs[length s2 := pd s1 s2 i (length s2)]"
    using c(1,2) i by (simp add: editDistance_outer_def arr_set_def)
  then show ?thesis using c(2,3) by (auto simp: nth_list_update le_less)
qed

lemma outer_fold:
  assumes "i \<le> length s1"
  shows "length (fold (editDistance_outer s1 s2) [0..<Suc i] []) = Suc (length s2)
       \<and> (\<forall>k\<le>length s2. fold (editDistance_outer s1 s2) [0..<Suc i] [] ! k = pd s1 s2 i k)"
  using assms
proof (induction i)
  case 0
  have "[0..<Suc 0] = [0]" by simp
  then have "fold (editDistance_outer s1 s2) [0..<Suc 0] [] = [0..<Suc (length s2)]"
    by (simp only: fold_simps editDistance_outer_0 id_apply comp_apply)
  moreover have "\<forall>k\<le>length s2. [0..<Suc (length s2)] ! k = k"
    by (metis add_0 le_imp_less_Suc nth_upt)
  ultimately show ?case by (simp add: pd_0_left del: upt_Suc)
next
  case (Suc i)
  let ?row = "fold (editDistance_outer s1 s2) [0..<Suc i] []"
  have IH: "length ?row = Suc (length s2)" "\<forall>k\<le>length s2. ?row ! k = pd s1 s2 (Suc i - 1) k"
    using Suc by simp_all
  have "fold (editDistance_outer s1 s2) [0..<Suc (Suc i)] [] = editDistance_outer s1 s2 (Suc i) ?row"
    by (simp del: upt_Suc add: upt_Suc_append [of 0 "Suc i"])
  then show ?case
    using editDistance_outer_Suc [OF _ Suc.prems IH] by simp
qed

lemma editDistance_levenshtein:
  "editDistance lc a b = levenshtein (lc a) (lc b)"
  using outer_fold [of "length (lc a)" "lc a" "lc b"]
  by (simp add: editDistance_def Let_def pd_def del: upt_Suc)

lemma levenshtein_same [simp]: "levenshtein xs xs = 0"
  by (induction xs) simp_all

subsection \<open>Similarity scorer\<close>

text \<open>
  C4. For all strings \<open>a\<close> and \<open>b\<close>, and whatever the host's lower-casing \<open>lc\<close> is,
  \<open>editDistance a b\<close> is the classic Levenshtein distance (unit cost for an insertion, a
  deletion and a substitution) between the lower-cased inputs; in particular it is
  symmetric.
\<close>

theorem editDistance_classic_levenshtein:
  "editDistance lc a b = levenshtein (lc a) (lc b) \<and> editDistance lc a b = editDistance lc b a"
  using levenshtein_sym [of "lc a" "lc b"] by (simp add: editDistance_levenshtein)

text \<open>
  What \<open>stringSimilarity\<close> returns when an input is empty, and on two equal non-empty
  strings.
\<close>

lemma stringSimilarity_one_empty:
  "stringSimilarity lc [] b = 0" "stringSimilarity lc a [] = 0"
  by (simp_all add: stringSimilarity_def)

lemma stringSimilarity_same:
  assumes "a \<noteq> []"
  shows "stringSimilarity lc a a = 1"
  using assms by (simp add: stringSimilarity_def Let_def editDistance_levenshtein)

text \<open>
  C3. The claim: \<open>stringSimilarity\<close> returns 1.0 when both inputs are the empty string, 0
  when exactly one is empty, and 1.0 for every string compared with itself. The source has
  the line \<^verbatim>\<open>if (longerLength === 0) return 1.0\<close> for the first case, but the guard
  \<^verbatim>\<open>if (!s1 || !s2) return 0\<close> before it returns first: on two empty strings the result
  is 0.
\<close>

theorem stringSimilarity_empty_empty: "stringSimilarity lc [] [] = 0"
  by (simp add: stringSimilarity_def)

text \<open>
  When lower-casing maps strings of equal length to strings of equal length, the order
  of the arguments does not matter.
\<close>

lemma stringSimilarity_sym_if:
  assumes "length a = length b \<Longrightarrow> length (lc a) = length (lc b)"
  shows "stringSimilarity lc a b = stringSimilarity lc b a"
proof (cases "length a = length b")
  case True
  then show ?thesis
    using assms levenshtein_sym [of "lc (lc a)" "lc (lc b)"]
    by (auto simp: stringSimilarity_def Let_def editDistance_levenshtein)
next
  case False
  then show ?thesis
    by (auto simp: stringSimilarity_def Let_def)
qed

text \<open>
  C9. The claim: \<open>stringSimilarity a b = stringSimilarity b a\<close> for all strings, also of
  equal lengths. \<open>longer\<close> is chosen by the lengths before lower-casing and measured after
  it. The one-unit strings U+0130 and \<open>a\<close>: the lower-case form of the first has two units,
  so with U+0130 first the result is \<open>(2 - 2) / 2\<close>, with \<open>a\<close> first it is \<open>(1 - 2) / 1\<close>.
\<close>

theorem stringSimilarity_not_symmetric:
  "stringSimilarity toLowerCase_units [304] [97] = 0
   \<and> stringSimilarity toLowerCase_units [97] [304] = - 1"
  by (simp add: stringSimilarity_def toLowerCase_units_def Let_def editDistance_levenshtein)

subsection \<open>Match selector\<close>

lemma scan_generic:
  fixes g :: "'a \<Rightarrow> rat" and pr :: "'a \<Rightarrow> 'b"
  shows "fold (\<lambda>x st. case st of (b, h) \<Rightarrow> if g x > h then (Some (pr x), g x) else (b, h)) xs (b, h)
       = (if fold (\<lambda>x. max (g x)) xs h > h
            then map_option pr (find (\<lambda>x. g x = fold (\<lambda>x. max (g x)) xs h) xs) else b,
          fold (\<lambda>x. max (g x)) xs h)"
proof (induction xs arbitrary: b h)
  case Nil
  show ?case by simp
next
  case (Cons x xs)
  have mono: "\<And>k. k \<le> fold (\<lambda>x. max (g x)) xs k"
  proof -
    fix k show "k \<le> fold (\<lambda>x. max (g x)) xs k"
      by (induction xs arbitrary: k) (auto intro: order_trans [OF max.cobounded2])
  qed
  show ?case
  proof (cases "g x > h")
    case True
    then have m: "max (g x) h = g x" by simp
    show ?thesis
      using True mono [of "g x"] by (auto simp add: Cons.IH m not_less)
  next
    case False
    then have m: "max (g x) h = h" by simp
    show ?thesis
      using False mono [of h] by (auto simp add: Cons.IH m)
  qed
qed

lemma fold_max_Max:
  fixes g :: "'a \<Rightarrow> rat"
  shows "fold (\<lambda>x. max (g x)) xs h = Max (insert h (g ` set xs))"
proof (induction xs arbitrary: h)
  case Nil
  show ?case by simp
next
  case (Cons x xs)
  have fin: "finite (g ` set xs)" by simp
  have "Max (insert (max (g x) h) (g ` set xs)) = Max (insert h (insert (g x) (g ` set xs)))"
  proof (cases "g ` set xs = {}")
    case True
    then show ?thesis by (simp add: max.commute)
  next
    case False
    then show ?thesis
      using fin by (simp add: max.assoc max.commute max.left_commute)
  qed
  then show ?case by (simp add: Cons.IH)
qed

lemma find_map_Pair:
  "find (\<lambda>p. case p of (m, s) \<Rightarrow> Q m s) (map (Pair m) ss) = map_option (Pair m) (find (Q m) ss)"
  by (induction ss) auto

lemma find_append_if:
  "find P (xs @ ys) = (case find P xs of None \<Rightarrow> find P ys | Some x \<Rightarrow> Some x)"
  by (induction xs) auto

lemma find_None_list_ex: "find P xs = None \<longleftrightarrow> \<not> list_ex P xs"
  by (induction xs) auto

lemma find_product:
  "map_option fst (find (\<lambda>p. case p of (m, s) \<Rightarrow> Q m s) (concat (map (\<lambda>m. map (Pair m) ss) ms)))
     = find (\<lambda>m. list_ex (Q m) ss) ms"
proof (induction ms)
  case Nil
  show ?case by simp
next
  case (Cons m ms)
  show ?case
  proof (cases "find (Q m) ss")
    case None
    then show ?thesis
      using Cons.IH find_None_list_ex [of "Q m" ss]
      by (simp add: find_append_if find_map_Pair)
  next
    case (Some s)
    then have "list_ex (Q m) ss"
      using find_None_list_ex [of "Q m" ss] by auto
    then show ?thesis
      using Some by (simp add: find_append_if find_map_Pair)
  qed
qed

lemma nested_fold_product:
  "fold (\<lambda>m. fold (\<lambda>s. f s m) ss) ms st
     = fold (\<lambda>p. case p of (m, s) \<Rightarrow> f s m) (concat (map (\<lambda>m. map (Pair m) ss) ms)) st"
proof (induction ms arbitrary: st)
  case Nil
  show ?case by simp
next
  case (Cons m ms)
  have "fold (\<lambda>p. case p of (m, s) \<Rightarrow> f s m) (map (Pair m) ss) st = fold (\<lambda>s. f s m) ss st"
    by (simp add: fold_map comp_def)
  then show ?case by (simp add: Cons.IH)
qed

lemma find_Some_D: "find P xs = Some x \<Longrightarrow> x \<in> set xs \<and> P x"
  by (induction xs) (auto split: if_splits)

lemma find_exists: "\<exists>x\<in>set xs. P x \<Longrightarrow> \<exists>y. find P xs = Some y"
  by (induction xs) auto

lemma findBestMatch_scan_char:
  fixes lc :: "'c list \<Rightarrow> 'c list" and results :: "'c manga list"
    and synonyms :: "'c list list" and t :: "'c list"
  defines "sim \<equiv> \<lambda>m s. stringSimilarity lc (title m) s"
  defines "P \<equiv> concat (map (\<lambda>m. map (Pair m) synonyms) results)"
  defines "h1 \<equiv> fold (\<lambda>m. max (sim m t)) results 0"
  defines "h2 \<equiv> fold (\<lambda>p. max (sim (fst p) (snd p))) P h1"
  shows "findBestMatch_scan lc results t synonyms =
     (if h2 > h1 then map_option fst (find (\<lambda>p. sim (fst p) (snd p) = h2) P)
      else if h1 > 0 then find (\<lambda>m. sim m t = h1) results else None, h2)"
proof -
  have step: "findBestMatch_step lc s = (\<lambda>m st. case st of (b, h) \<Rightarrow>
      if sim m s > h then (Some m, sim m s) else (b, h))" for s
    by (intro ext) (simp add: findBestMatch_step_def sim_def Let_def split: prod.split)
  have p1: "fold (findBestMatch_step lc t) results (None, 0) =
      (if h1 > 0 then find (\<lambda>m. sim m t = h1) results else None, h1)"
    using scan_generic [of "\<lambda>m. sim m t" "\<lambda>m. m" results None 0]
    by (simp add: step h1_def option.map_ident cong: if_cong)
  have n: "fold (\<lambda>manga. fold (\<lambda>synonym. findBestMatch_step lc synonym manga) synonyms) results (b, h1)
      = fold (\<lambda>p. case p of (m, s) \<Rightarrow> findBestMatch_step lc s m) P (b, h1)" for b
    unfolding P_def by (rule nested_fold_product)
  have e: "(\<lambda>p. case p of (m, s) \<Rightarrow> findBestMatch_step lc s m) =
      (\<lambda>x st. case st of (b, h) \<Rightarrow>
         if sim (fst x) (snd x) > h then (Some (fst x), sim (fst x) (snd x)) else (b, h))"
    by (intro ext) (simp add: step split: prod.split)
  have p2: "fold (\<lambda>manga. fold (\<lambda>synonym. findBestMatch_step lc synonym manga) synonyms) results (b, h1) =
      (if h2 > h1 then map_option fst (find (\<lambda>p. sim (fst p) (snd p) = h2) P) else b, h2)" for b
    unfolding n e h2_def
    by (rule scan_generic [of "\<lambda>p. sim (fst p) (snd p)" fst P b h1])
  show ?thesis
  proof (cases "synonyms = []")
    case True
    then have "P = []" by (simp add: P_def)
    then have "h2 = h1" by (simp add: h2_def)
    then show ?thesis using True by (simp add: findBestMatch_scan_def p1)
  next
    case False
    then show ?thesis by (simp add: findBestMatch_scan_def p1 p2)
  qed
qed

lemma select_generic:
  fixes lc :: "'c list \<Rightarrow> 'c list" and results :: "'c manga list"
    and synonyms :: "'c list list" and t :: "'c list" and c :: rat
  assumes ne: "results \<noteq> []" and c: "0 < c"
  defines "G \<equiv> best_score lc results t synonyms"
  shows "\<exists>b h. findBestMatch_scan lc results t synonyms = (b, h) \<and>
          (G < c \<longrightarrow> h < c) \<and>
          (c \<le> G \<longrightarrow> \<not> h < c \<and>
             (\<exists>m. b = Some m \<and> m \<in> set results
                \<and> pass_order_choice lc results t synonyms G = Some m
                \<and> candidate_score lc t synonyms m = G))"
proof -
  define sim where "sim = (\<lambda>(m::'c manga) s. stringSimilarity lc (title m) s)"
  define P where "P = concat (map (\<lambda>m. map (Pair m) synonyms) results)"
  define h1 where "h1 = fold (\<lambda>m. max (sim m t)) results 0"
  define h2 where "h2 = fold (\<lambda>p. max (sim (fst p) (snd p))) P h1"
  define A where "A = (\<lambda>m. sim m t) ` set results"
  define B where "B = (\<lambda>p. sim (fst p) (snd p)) ` set P"
  define cs where "cs = candidate_score lc t synonyms"
  have scan: "findBestMatch_scan lc results t synonyms =
     (if h2 > h1 then map_option fst (find (\<lambda>p. sim (fst p) (snd p) = h2) P)
      else if h1 > 0 then find (\<lambda>m. sim m t = h1) results else None, h2)"
    unfolding sim_def P_def h1_def h2_def by (rule findBestMatch_scan_char)
  have finA: "finite A" and finB: "finite B" by (simp_all add: A_def B_def)
  have h1M: "h1 = Max (insert 0 A)" by (simp add: h1_def A_def fold_max_Max)
  have h2M: "h2 = Max (insert h1 B)" by (simp add: h2_def B_def fold_max_Max)
  have setP: "set P = set results \<times> set synonyms" by (auto simp: P_def)
  have h1_in: "h1 = 0 \<or> h1 \<in> A"
    using Max_in [of "insert 0 A"] finA by (auto simp: h1M)
  have h2_in: "h2 = h1 \<or> h2 \<in> B"
    using Max_in [of "insert h1 B"] finB by (auto simp: h2M)
  have h1_ge0: "0 \<le> h1" using finA by (simp add: h1M)
  have h1_geA: "a \<le> h1" if "a \<in> A" for a using that finA by (simp add: h1M)
  have h2_ge1: "h1 \<le> h2" using finB by (simp add: h2M)
  have h2_geB: "x \<le> h2" if "x \<in> B" for x using that finB by (simp add: h2M)
  have cs_eq: "cs m = Max (insert (sim m t) (sim m ` set synonyms))" for m
    by (simp add: cs_def candidate_score_def sim_def)
  have cs_ge_t: "sim m t \<le> cs m" for m by (simp add: cs_eq)
  have cs_ge_s: "sim m s \<le> cs m" if "s \<in> set synonyms" for m s
    using that by (simp add: cs_eq)
  have cs_le: "cs m \<le> h2" if m: "m \<in> set results" for m
  proof -
    have "sim m t \<le> h2" using h1_geA [of "sim m t"] m h2_ge1 by (auto simp: A_def)
    moreover have "sim m s \<le> h2" if "s \<in> set synonyms" for s
      using h2_geB [of "sim m s"] m that by (force simp: B_def setP)
    ultimately show ?thesis by (auto simp: cs_eq)
  qed
  have G_eq: "G = Max (cs ` set results)"
    by (simp add: G_def best_score_def cs_def)
  have G_ge: "cs m \<le> G" if "m \<in> set results" for m using that by (simp add: G_eq)
  have G_le: "G \<le> h2" using ne cs_le by (simp add: G_eq)
  have A_le: "a \<le> G" if aA: "a \<in> A" for a
  proof -
    obtain m where m: "m \<in> set results" "a = sim m t" using aA by (auto simp: A_def)
    show ?thesis using order_trans [OF cs_ge_t G_ge [OF m(1)]] m(2) by simp
  qed
  have B_le: "x \<le> G" if xB: "x \<in> B" for x
  proof -
    obtain m s where m: "m \<in> set results" "s \<in> set synonyms" "x = sim m s"
      using xB by (auto simp: B_def setP)
    show ?thesis using order_trans [OF cs_ge_s [OF m(2)] G_ge [OF m(1)]] m(3) by simp
  qed
  have h2_max: "h2 = max 0 G"
  proof (cases "h2 = 0")
    case True
    then show ?thesis using G_le by simp
  next
    case False
    then have "h2 \<in> A \<or> h2 \<in> B" using h1_in h2_in by auto
    then have "h2 \<le> G" using A_le B_le by auto
    then show ?thesis using G_le h1_ge0 h2_ge1 by simp
  qed
  have low: "G < c \<longrightarrow> h2 < c" using c by (simp add: h2_max)
  have high: "\<not> h2 < c \<and>
             (\<exists>m. fst (findBestMatch_scan lc results t synonyms) = Some m \<and> m \<in> set results
                \<and> pass_order_choice lc results t synonyms G = Some m
                \<and> candidate_score lc t synonyms m = G)" if cG: "c \<le> G"
  proof -
    have hG: "h2 = G" and Gpos: "0 < G" using cG c by (simp_all add: h2_max)
    show ?thesis
    proof (cases "h2 > h1")
      case True
      then have "h2 \<in> B" using h2_in by auto
      then obtain m0 s0 where ms: "m0 \<in> set results" "s0 \<in> set synonyms" "sim m0 s0 = G"
        by (auto simp: B_def setP hG)
      have fp: "map_option fst (find (\<lambda>p. sim (fst p) (snd p) = h2) P)
          = find (\<lambda>m. list_ex (\<lambda>s. sim m s = G) synonyms) results"
        using find_product [of "\<lambda>m s. sim m s = G" synonyms results]
        by (simp add: P_def hG case_prod_beta)
      have "\<exists>m\<in>set results. list_ex (\<lambda>s. sim m s = G) synonyms"
        using ms by (auto simp: list_ex_iff)
      then have "\<exists>m. find (\<lambda>m. list_ex (\<lambda>s. sim m s = G) synonyms) results = Some m"
        by (rule find_exists)
      then obtain m where fm: "find (\<lambda>m. list_ex (\<lambda>s. sim m s = G) synonyms) results = Some m" ..
      then have m: "m \<in> set results" and "list_ex (\<lambda>s. sim m s = G) synonyms"
        using find_Some_D [OF fm] by auto
      then obtain s where s: "s \<in> set synonyms" "sim m s = G" by (auto simp: list_ex_iff)
      have csm: "cs m = G" using cs_ge_s [OF s(1), of m] s(2) G_ge [OF m] by simp
      have "\<not> list_ex (\<lambda>m. sim m t = G) results"
        using h1_geA True hG by (force simp: list_ex_iff A_def)
      then have "find (\<lambda>m. sim m t = G) results = None"
        by (simp add: find_None_list_ex)
      then have "pass_order_choice lc results t synonyms G = Some m"
        using fm by (simp add: pass_order_choice_def sim_def)
      moreover have "fst (findBestMatch_scan lc results t synonyms) = Some m"
        using True fp fm by (simp add: scan)
      moreover have "candidate_score lc t synonyms m = G" using csm by (simp add: cs_def)
      moreover have "\<not> h2 < c" using cG hG by simp
      ultimately show ?thesis using m by blast
    next
      case False
      then have e: "h1 = G" using h2_ge1 hG by simp
      then have "h1 \<in> A" using h1_in Gpos by auto
      then have "\<exists>m\<in>set results. sim m t = G" by (auto simp: A_def e)
      then have "\<exists>m. find (\<lambda>m. sim m t = G) results = Some m"
        by (rule find_exists)
      then obtain m where fm: "find (\<lambda>m. sim m t = G) results = Some m" ..
      then have m: "m \<in> set results" and mt: "sim m t = G"
        using find_Some_D [OF fm] by auto
      have csm: "cs m = G" using cs_ge_t [of m] mt G_ge [OF m] by simp
      have "pass_order_choice lc results t synonyms G = Some m"
        using fm by (simp add: pass_order_choice_def sim_def)
      moreover have "fst (findBestMatch_scan lc results t synonyms) = Some m"
        using False fm Gpos e by (simp add: scan)
      moreover have "candidate_score lc t synonyms m = G" using csm by (simp add: cs_def)
      moreover have "\<not> h2 < c" using cG hG by simp
      ultimately show ?thesis using m by blast
    qed
  qed
  have "snd (findBestMatch_scan lc results t synonyms) = h2" by (simp add: scan)
  then show ?thesis
    using low high by (cases "findBestMatch_scan lc results t synonyms") auto
qed


text \<open>
  C5. The claim: on an empty candidate list \<open>findBestMatch\<close> always fails with the
  no-candidates error. The later revision throws
  \<^verbatim>\<open>Error(`No manga results found to match with title: ${title}`)\<close>; the
  \<open>findBestMatch\<close> of src/providers/mapper.js has no such check and fails, for every title
  and every list of alternates, with the TypeError of its log line reading
  \<^verbatim>\<open>results[0].title\<close>.
\<close>

theorem findBestMatch_empty:
  "findBestMatch lc [] t synonyms
     = Inl (TypeError [Lit ''Cannot read properties of undefined (reading title)''])
   \<and> findBestMatch_rev2 lc [] t synonyms
     = Inl (Error [Lit ''No manga results found to match with title: '', Val t])"
  by (simp add: findBestMatch_def findBestMatch_rev2_def findBestMatch_scan_def Let_def)

text \<open>
  C6, as the claim states it, fails: two candidates titled \<open>bar\<close> and \<open>foo\<close>, the primary
  title \<open>foo\<close>, one alternate \<open>bar\<close>. Both candidates score 1, the first of them in
  input order is \<open>bar\<close>, and \<open>findBestMatch\<close> returns \<open>foo\<close>: the loop over the primary
  title runs first, and the loop over the alternates replaces the best match only on a
  strictly greater similarity.
\<close>

theorem findBestMatch_tie_counterexample:
  "3 / 10 \<le> best_score toLowerCase_ascii
       [\<lparr>manga_id = ''1'', title = ''bar''\<rparr>, \<lparr>manga_id = ''2'', title = ''foo''\<rparr>] ''foo'' [''bar'']
   \<and> find (\<lambda>m. candidate_score toLowerCase_ascii ''foo'' [''bar''] m
                = best_score toLowerCase_ascii
                    [\<lparr>manga_id = ''1'', title = ''bar''\<rparr>, \<lparr>manga_id = ''2'', title = ''foo''\<rparr>]
                    ''foo'' [''bar''])
        [\<lparr>manga_id = ''1'', title = ''bar''\<rparr>, \<lparr>manga_id = ''2'', title = ''foo''\<rparr>]
      = Some \<lparr>manga_id = ''1'', title = ''bar''\<rparr>
   \<and> findBestMatch toLowerCase_ascii
       [\<lparr>manga_id = ''1'', title = ''bar''\<rparr>, \<lparr>manga_id = ''2'', title = ''foo''\<rparr>] ''foo'' [''bar'']
      = Inr \<lparr>manga_id = ''2'', title = ''foo''\<rparr>"
  by code_simp

text \<open>
  C6, amended. For a non-empty candidate list: when the greatest score is below the
  cutoff (0.3 in src/providers/mapper.js, 0.4 in the later revision), the first candidate
  in input order is returned and the call does not fail. When the greatest score reaches
  the cutoff, the returned candidate attains it, and ties are broken by the order of the
  two loops: it is the first candidate whose title has that similarity to the primary
  title, and only when no title has, the first candidate whose title has it to some
  alternate.
\<close>

theorem findBestMatch_pass_order:
  assumes "results \<noteq> []"
  shows "(best_score lc results t synonyms < 3 / 10
            \<longrightarrow> findBestMatch lc results t synonyms = Inr (hd results))
       \<and> (3 / 10 \<le> best_score lc results t synonyms
            \<longrightarrow> (\<exists>m. findBestMatch lc results t synonyms = Inr m \<and> m \<in> set results
                   \<and> candidate_score lc t synonyms m = best_score lc results t synonyms
                   \<and> pass_order_choice lc results t synonyms (best_score lc results t synonyms) = Some m))
       \<and> (best_score lc results t synonyms < 4 / 10
            \<longrightarrow> findBestMatch_rev2 lc results t synonyms = Inr (hd results))
       \<and> (4 / 10 \<le> best_score lc results t synonyms
            \<longrightarrow> (\<exists>m. findBestMatch_rev2 lc results t synonyms = Inr m \<and> m \<in> set results
                   \<and> candidate_score lc t synonyms m = best_score lc results t synonyms
                   \<and> pass_order_choice lc results t synonyms (best_score lc results t synonyms) = Some m))"
proof -
  obtain first rest where r: "results = first # rest"
    using assms by (cases results) auto
  have a: "(best_score lc results t synonyms < 3 / 10
            \<longrightarrow> findBestMatch lc results t synonyms = Inr (hd results))
       \<and> (3 / 10 \<le> best_score lc results t synonyms
            \<longrightarrow> (\<exists>m. findBestMatch lc results t synonyms = Inr m \<and> m \<in> set results
                   \<and> candidate_score lc t synonyms m = best_score lc results t synonyms
                   \<and> pass_order_choice lc results t synonyms (best_score lc results t synonyms) = Some m))"
    using select_generic [OF assms, of "3 / 10" lc t synonyms]
    by (auto simp: findBestMatch_def Let_def r split: option.splits)
  have b: "(best_score lc results t synonyms < 4 / 10
            \<longrightarrow> findBestMatch_rev2 lc results t synonyms = Inr (hd results))
       \<and> (4 / 10 \<le> best_score lc results t synonyms
            \<longrightarrow> (\<exists>m. findBestMatch_rev2 lc results t synonyms = Inr m \<and> m \<in> set results
                   \<and> candidate_score lc t synonyms m = best_score lc results t synonyms
                   \<and> pass_order_choice lc results t synonyms (best_score lc results t synonyms) = Some m))"
    using select_generic [OF assms, of "4 / 10" lc t synonyms]
    by (auto simp: findBestMatch_rev2_def Let_def r split: option.splits)
  show ?thesis using a b by blast
qed

theorem findBestMatch_pass_order_witness:
  "[\<lparr>manga_id = ''1'', title = ''bar''\<rparr>, \<lparr>manga_id = ''2'', title = ''foo''\<rparr>] \<noteq> []
   \<and> findBestMatch toLowerCase_ascii
       [\<lparr>manga_id = ''1'', title = ''bar''\<rparr>, \<lparr>manga_id = ''2'', title = ''foo''\<rparr>] ''foo'' [''bar'']
      = Inr \<lparr>manga_id = ''2'', title = ''foo''\<rparr>
   \<and> pass_order_choice toLowerCase_ascii
       [\<lparr>manga_id = ''1'', title = ''bar''\<rparr>, \<lparr>manga_id = ''2'', title = ''foo''\<rparr>] ''foo'' [''bar''] 1
      = Some \<lparr>manga_id = ''2'', title = ''foo''\<rparr>"
proof -
  let ?rs = "[\<lparr>manga_id = ''1'', title = ''bar''\<rparr>, \<lparr>manga_id = ''2'', title = ''foo''\<rparr>]"
  have ne: "?rs \<noteq> []" by simp
  have bs: "best_score toLowerCase_ascii ?rs ''foo'' [''bar''] = 1" by code_simp
  have le: "3 / 10 \<le> best_score toLowerCase_ascii ?rs ''foo'' [''bar'']" by (simp add: bs)
  have fb: "findBestMatch toLowerCase_ascii ?rs ''foo'' [''bar'']
      = Inr \<lparr>manga_id = ''2'', title = ''foo''\<rparr>" by code_simp
  note sel = findBestMatch_pass_order [OF ne, where lc = toLowerCase_ascii and t = "''foo''"
      and synonyms = "[''bar'']", THEN conjunct2, THEN conjunct1, THEN mp, OF le]
  then obtain m where m: "findBestMatch toLowerCase_ascii ?rs ''foo'' [''bar''] = Inr m"
    "pass_order_choice toLowerCase_ascii ?rs ''foo'' [''bar'']
       (best_score toLowerCase_ascii ?rs ''foo'' [''bar'']) = Some m"
    by blast
  have "m = \<lparr>manga_id = ''2'', title = ''foo''\<rparr>" using m(1) fb by simp
  then show ?thesis using m(2) fb ne by (simp add: bs)
qed

subsection \<open>Retry chain\<close>







subsection \<open>Extraction pipelines: invariants of the page lists\<close>

lemma fold_preserves:
  assumes "\<And>x s. P s \<Longrightarrow> P (f x s)" and "P s"
  shows "P (fold f xs s)"
  using assms(2) by (induction xs arbitrary: s) (simp_all add: assms(1))

lemma distinct_values_Nil [simp]: "distinct_values []"
  by (simp add: distinct_values_def)

lemma distinct_set_add: "distinct_values us \<Longrightarrow> distinct_values (set_add u us)"
  by (auto simp: set_add_def set_has_def distinct_values_def)

lemma distinct_mb_method1: "distinct_values us \<Longrightarrow> distinct_values (mb_method1 doc us)"
  unfolding mb_method1_def mb_method1_url_def
  by (auto intro!: fold_preserves [where P = distinct_values] distinct_set_add)

lemma distinct_mb_method2: "distinct_values us \<Longrightarrow> distinct_values (mb_method2 doc us)"
  unfolding mb_method2_def mb_method2_step_def Let_def
  by (auto intro!: fold_preserves [where P = distinct_values] distinct_set_add)

lemma distinct_mb_method3: "distinct_values us \<Longrightarrow> distinct_values (mb_method3 doc us)"
  unfolding mb_method3_def
  by (auto intro!: fold_preserves [where P = distinct_values] distinct_set_add)

lemma distinct_mb_method4: "distinct_values us \<Longrightarrow> distinct_values (mb_method4 doc us)"
  unfolding mb_method4_def Let_def
  by (auto intro!: fold_preserves [where P = distinct_values] distinct_set_add)

lemma distinct_add_images: "distinct_values us \<Longrightarrow> distinct_values (fst (add_images props imgs us))"
  by (induction imgs arbitrary: us) (auto simp: distinct_set_add split: option.splits)

lemma distinct_mb_scripts: "distinct_values us \<Longrightarrow> distinct_values (mb_scripts ms us)"
proof (induction ms arbitrary: us)
  case Nil
  then show ?case by simp
next
  case (Cons m ms)
  show ?case
  proof (cases m)
    case None
    then show ?thesis using Cons by simp
  next
    case (Some r)
    show ?thesis
    proof (cases r)
      case (ImageArray imgData)
      have d: "distinct_values (fst (add_images [''url'', ''src'', ''path'', ''i'', ''img''] imgData us))"
        using Cons.prems by (rule distinct_add_images)
      show ?thesis
        using Some ImageArray Cons d
        by (cases "add_images [''url'', ''src'', ''path'', ''i'', ''img''] imgData us") auto
    qed (use Some Cons in simp_all)
  qed
qed

lemma distinct_mb_method5: "distinct_values us \<Longrightarrow> distinct_values (mb_method5 doc us)"
  by (simp add: mb_method5_def distinct_mb_scripts)

lemma distinct_mb_method6: "distinct_values us \<Longrightarrow> distinct_values (mb_method6 doc us)"
  unfolding mb_method6_def Let_def
  by (auto intro!: fold_preserves [where P = distinct_values] distinct_set_add)

lemma distinct_mk_method1: "distinct_values us \<Longrightarrow> distinct_values (mk_method1 doc us)"
  unfolding mk_method1_def Let_def
  by (auto intro!: fold_preserves [where P = distinct_values] distinct_set_add)

lemma distinct_mk_method2: "distinct_values us \<Longrightarrow> distinct_values (mk_method2 doc us)"
  unfolding mk_method2_def
  by (auto intro!: fold_preserves [where P = distinct_values] distinct_set_add)

lemma distinct_mk_patterns: "distinct_values us \<Longrightarrow> distinct_values (mk_patterns ms us)"
proof (induction ms arbitrary: us)
  case Nil
  then show ?case by simp
next
  case (Cons m ms)
  show ?case
  proof (cases m)
    case None
    then show ?thesis using Cons by simp
  next
    case (Some r)
    show ?thesis
    proof (cases r)
      case (ImageArray images)
      have d: "distinct_values (fst (add_images [''url'', ''src'', ''path'', ''img''] images us))"
        using Cons.prems by (rule distinct_add_images)
      show ?thesis
        using Some ImageArray Cons d
        by (cases "add_images [''url'', ''src'', ''path'', ''img''] images us") auto
    qed (use Some Cons in simp_all)
  qed
qed

lemma distinct_mk_method3: "distinct_values us \<Longrightarrow> distinct_values (mk_method3 doc us)"
  unfolding mk_method3_def
  by (auto intro!: fold_preserves [where P = distinct_values] distinct_mk_patterns)

lemma map_url_to_pages: "map url (to_pages us) = us"
  by (simp add: to_pages_def enumerate_eq_zip map_zip_map2 case_prod_beta comp_def)

lemma map_index_to_pages: "map index (to_pages us) = [1..<Suc (length us)]"
  by (rule nth_equalityI) (simp_all add: to_pages_def nth_enumerate_eq del: upt_Suc)

lemma sort_to_pages: "sort_key index (to_pages us) = to_pages us"
  by (rule sort_key_id_if_sorted) (simp add: map_index_to_pages del: upt_Suc)

lemma length_to_pages: "length (to_pages us) = length us"
  by (simp add: to_pages_def)

lemma numbered_Nil: "numbered []"
  by (simp add: numbered_def)

lemma numbered_snoc:
  assumes "numbered pages" "is_object u \<or> (\<forall>p\<in>set pages. url p \<noteq> u)"
  shows "numbered (pages @ [\<lparr>url = u, index = Suc (length pages)\<rparr>])"
proof -
  have "is_object u \<or> u \<notin> url ` set pages" using assms(2) by auto
  then have "distinct_values (map url pages @ [u])"
    using assms(1) by (auto simp: numbered_def distinct_values_def)
  moreover have "map index (pages @ [\<lparr>url = u, index = Suc (length pages)\<rparr>])
      = [1..<Suc (Suc (length pages))]"
    using assms(1) by (simp add: numbered_def del: upt_Suc) simp
  ultimately show ?thesis by (simp add: numbered_def del: upt_Suc)
qed

lemma push_state_init: "numbered pages \<Longrightarrow> push_state (pages, set (map url pages), length pages + 1)"
  by (simp add: push_state_def)

lemma push_state_mp_push: "push_state st \<Longrightarrow> push_state (mp_push u st)"
proof (cases st)
  case (fields pages existingUrls next_index)
  assume "push_state st"
  then have st: "numbered pages" "existingUrls = set (map url pages)" "next_index = length pages + 1"
    by (simp_all add: fields push_state_def)
  show ?thesis
  proof (cases "set_has existingUrls u")
    case True
    then show ?thesis using st by (simp add: fields mp_push_def push_state_def)
  next
    case False
    then have "is_object u \<or> (\<forall>p\<in>set pages. url p \<noteq> u)"
      using st(2) by (auto simp: set_has_def)
    then have "numbered (pages @ [\<lparr>url = u, index = Suc (length pages)\<rparr>])"
      using st(1) by (rule numbered_snoc [rotated])
    then show ?thesis using False st by (simp add: fields mp_push_def push_state_def)
  qed
qed

lemma push_state_numbered: "push_state st \<Longrightarrow> numbered (fst st)"
  by (cases st) (simp add: push_state_def)

lemma numbered_mp_method1: "numbered (mp_method1 doc [])"
proof -
  let ?P = "\<lambda>st. numbered (fst st) \<and> snd st = length (fst st) + 1"
  have step: "?P (mp_method1_step m st)" if P: "?P st" for m st
  proof (cases st)
    case (Pair pages next_index)
    let ?u = "replace_all (CHR 0x5C # ''u002F'') ''/'' m"
    show ?thesis
    proof (cases "?u \<noteq> [] \<and> \<not> list_ex (\<lambda>p. url p = JStr ?u) pages")
      case True
      then have "is_object (JStr ?u) \<or> (\<forall>p\<in>set pages. url p \<noteq> JStr ?u)"
        by (auto simp: list_ex_iff)
      then have "numbered (pages @ [\<lparr>url = JStr ?u, index = Suc (length pages)\<rparr>])"
        using P Pair by (intro numbered_snoc) simp_all
      then show ?thesis using True P Pair by (simp add: mp_method1_step_def Let_def)
    next
      case False
      then show ?thesis using P Pair by (auto simp: mp_method1_step_def Let_def)
    qed
  qed
  have "?P (fold mp_method1_step (mp_jsonMatches doc) ([], 1))"
    by (rule fold_preserves [where P = ?P]) (use step in \<open>simp_all add: numbered_Nil\<close>)
  then show ?thesis by (simp add: mp_method1_def numbered_Nil)
qed

lemma numbered_mp_method2:
  assumes "numbered pages"
  shows "numbered (mp_method2 doc pages)"
proof -
  have "push_state (fold (\<lambda>imageUrl st. if imageUrl \<noteq> [] then mp_push (JStr imageUrl) st else st)
           (mp_domainMatches doc) (pages, set (map url pages), length pages + 1))"
  proof (rule fold_preserves [where P = push_state])
    show "push_state (pages, set (map url pages), length pages + 1)"
      by (rule push_state_init [OF assms])
  qed (simp add: push_state_mp_push)
  then have "numbered (fst (fold (\<lambda>imageUrl st. if imageUrl \<noteq> [] then mp_push (JStr imageUrl) st else st)
           (mp_domainMatches doc) (pages, set (map url pages), length pages + 1)))"
    by (rule push_state_numbered)
  then show ?thesis
    using assms by (auto simp: mp_method2_def)
qed

lemma push_state_mp_method3_step: "push_state st \<Longrightarrow> push_state (mp_method3_step m st)"
  by (simp add: mp_method3_step_def Let_def push_state_mp_push)

lemma numbered_mp_method3:
  assumes "numbered pages"
  shows "numbered (mp_method3 doc pages)"
proof -
  have "push_state (fold mp_method3_step (mp_imageMatches doc)
           (pages, set (map url pages), length pages + 1))"
  proof (rule fold_preserves [where P = push_state])
    show "push_state (pages, set (map url pages), length pages + 1)"
      by (rule push_state_init [OF assms])
  qed (rule push_state_mp_method3_step)
  then have "numbered (fst (fold mp_method3_step (mp_imageMatches doc)
           (pages, set (map url pages), length pages + 1)))"
    by (rule push_state_numbered)
  then show ?thesis
    using assms by (auto simp: mp_method3_def numbered_Nil)
qed

lemma push_state_mp_add_images:
  "push_state st \<Longrightarrow> push_state (fst (mp_add_images imgs st))"
  by (induction imgs arbitrary: st) (auto simp: push_state_mp_push split: option.splits)

lemma numbered_mp_scripts: "numbered pages \<Longrightarrow> numbered (mp_scripts ms pages)"
proof (induction ms arbitrary: pages)
  case Nil
  then show ?case by simp
next
  case (Cons m ms)
  show ?case
  proof (cases m)
    case None
    then show ?thesis using Cons by simp
  next
    case (Some r)
    show ?thesis
    proof (cases r)
      case (ImageArray imgData)
      let ?r = "mp_add_images imgData (pages, set (map url pages), length pages + 1)"
      have "push_state (fst ?r)"
        using Cons.prems by (intro push_state_mp_add_images push_state_init)
      then have n: "numbered (fst (fst ?r))" by (rule push_state_numbered)
      obtain pages' e ni threw where r: "?r = ((pages', e, ni), threw)"
        by (metis prod.exhaust)
      show ?thesis
        using Some ImageArray Cons n r by auto
    qed (use Some Cons in simp_all)
  qed
qed

lemma numbered_mp_method4: "numbered pages \<Longrightarrow> numbered (mp_method4 doc pages)"
  using numbered_mp_scripts [of "[]" "mp_scriptData doc"] by (simp add: mp_method4_def numbered_Nil)

lemma push_state_mp_method5_step: "push_state st \<Longrightarrow> push_state (mp_method5_step m st)"
  by (simp add: mp_method5_step_def Let_def push_state_mp_push)

lemma numbered_mp_method5:
  assumes "numbered pages"
  shows "numbered (mp_method5 doc pages)"
proof -
  have "push_state (fold mp_method5_step (mp_broadMatches doc) ([], {}, 1))"
  proof (rule fold_preserves [where P = push_state])
    show "push_state ([], {}, 1)" by (simp add: push_state_def numbered_Nil)
  qed (rule push_state_mp_method5_step)
  then have "numbered (fst (fold mp_method5_step (mp_broadMatches doc) ([], {}, 1)))"
    by (rule push_state_numbered)
  then show ?thesis
    using assms by (auto simp: mp_method5_def numbered_Nil)
qed

lemma numbered_mp_fetchChapterPages: "numbered (mp_fetchChapterPages doc)"
proof -
  let ?pages = "mp_method5 doc (mp_method4 doc (mp_method3 doc (mp_method2 doc (mp_method1 doc []))))"
  have n: "numbered ?pages"
    by (intro numbered_mp_method5 numbered_mp_method4 numbered_mp_method3 numbered_mp_method2
          numbered_mp_method1)
  then have "sort_key index ?pages = ?pages"
    by (intro sort_key_id_if_sorted) (simp add: numbered_def del: upt_Suc)
  then show ?thesis using n by (simp add: mp_fetchChapterPages_def Let_def)
qed

subsection \<open>Extraction pipelines: first occurrences\<close>

lemma first_seen_Nil [simp]: "first_seen [] = []"
  by (simp add: first_seen_def)

lemma first_seen_snoc:
  "first_seen (xs @ [x]) = (if x \<in> set xs then first_seen xs else first_seen xs @ [x])"
  by (simp add: first_seen_def)

lemma set_first_seen [simp]: "set (first_seen xs) = set xs"
  by (simp add: first_seen_def)

lemma distinct_first_seen [simp]: "distinct (first_seen xs)"
  by (simp add: first_seen_def)

lemma first_seen_append:
  "first_seen (xs @ ys) = first_seen xs @ filter (\<lambda>y. y \<notin> set xs) (first_seen ys)"
proof (induction ys rule: rev_induct)
  case Nil
  show ?case by simp
next
  case (snoc y ys)
  have "first_seen (xs @ ys @ [y]) = first_seen ((xs @ ys) @ [y])" by simp
  also have "\<dots> = (if y \<in> set (xs @ ys) then first_seen (xs @ ys) else first_seen (xs @ ys) @ [y])"
    by (rule first_seen_snoc)
  finally show ?case using snoc by (auto simp: first_seen_snoc)
qed

lemma fold_set_add:
  assumes "list_all (\<lambda>v. \<not> is_object v) vs"
  shows "fold set_add vs us = us @ filter (\<lambda>v. v \<notin> set us) (first_seen vs)"
  using assms
proof (induction vs rule: rev_induct)
  case Nil
  show ?case by simp
next
  case (snoc v vs)
  then have IH: "fold set_add vs us = us @ filter (\<lambda>v. v \<notin> set us) (first_seen vs)"
    and v: "\<not> is_object v" by simp_all
  have "fold set_add (vs @ [v]) us = set_add v (us @ filter (\<lambda>v. v \<notin> set us) (first_seen vs))"
    by (simp add: IH)
  also have "\<dots> = us @ filter (\<lambda>v. v \<notin> set us) (first_seen (vs @ [v]))"
    using v by (auto simp: set_add_def set_has_def first_seen_snoc)
  finally show ?case .
qed

lemma fold_set_add_strings:
  "fold set_add (map JStr cs) us = us @ filter (\<lambda>v. v \<notin> set us) (first_seen (map JStr cs))"
  by (rule fold_set_add) (simp add: list_all_iff)

lemma fold_concat:
  assumes "\<And>x s. fold (f x) (g x) s = fold h (k x) s"
  shows "fold (\<lambda>x. fold (f x) (g x)) xs s = fold h (concat (map k xs)) s"
  by (induction xs arbitrary: s) (simp_all add: assms)

lemma fold_filter_map:
  "fold (\<lambda>x s. if P x then h (g x) s else s) xs s = fold h (map g (filter P xs)) s"
  by (induction xs arbitrary: s) simp_all

lemma mb_method1_fold_candidates:
  "mb_method1 doc us = fold set_add (map JStr (mb_method1_candidates doc)) us"
proof -
  let ?P = "\<lambda>u. u \<noteq> [] \<and> trim u \<noteq> [] \<and> \<not> includes_str u ''avatar''
              \<and> \<not> includes_str u ''icon'' \<and> \<not> includes_str u ''thumb.''"
  have url: "mb_method1_url = (\<lambda>u s. if ?P u then set_add (JStr (trim u)) s else s)"
    by (auto simp: mb_method1_url_def fun_eq_iff)
  have inner: "fold mb_method1_url (split_comma m) s
      = fold set_add (map JStr (map trim (filter ?P (split_comma m)))) s" for m s
    unfolding url by (simp only: fold_filter_map [where h = set_add and g = "\<lambda>u. JStr (trim u)"] map_map comp_def)
  have "fold (\<lambda>m. fold mb_method1_url (split_comma m)) (mb_commaListMatches doc) us
      = fold set_add (concat (map (\<lambda>m. map JStr (map trim (filter ?P (split_comma m))))
                              (mb_commaListMatches doc))) us"
    by (rule fold_concat) (rule inner)
  also have "concat (map (\<lambda>m. map JStr (map trim (filter ?P (split_comma m))))
                              (mb_commaListMatches doc))
      = map JStr (mb_method1_candidates doc)"
    by (simp add: mb_method1_candidates_def map_concat comp_def)
  finally show ?thesis
    by (cases "mb_commaListMatches doc = []") (simp_all add: mb_method1_def mb_method1_candidates_def)
qed

lemma mb_method2_fold_candidates:
  "mb_method2 doc us = fold set_add (map JStr (mb_method2_candidates doc)) us"
proof -
  let ?src = "\<lambda>el. case el of (dataSrc, srcAttr) \<Rightarrow> js_or dataSrc (js_or srcAttr [])"
  let ?ok = "\<lambda>src. src \<noteq> [] \<and> \<not> includes_str src ''/static/common/x.gif''
            \<and> \<not> includes_str src ''thumb.'' \<and> \<not> includes_str src ''thumbnail.''"
  let ?k = "\<lambda>el. if ?ok (?src el) then
                    (if includes_str (?src el) '','' then
                       map trim (filter (\<lambda>u. u \<noteq> [] \<and> trim u \<noteq> []) (split_comma (?src el)))
                     else [?src el])
                  else []"
  have inner: "fold (\<lambda>u uniqueUrls. if u \<noteq> [] \<and> trim u \<noteq> [] then set_add (JStr (trim u)) uniqueUrls
                                     else uniqueUrls) parts s
      = fold set_add (map JStr (map trim (filter (\<lambda>u. u \<noteq> [] \<and> trim u \<noteq> []) parts))) s" for parts s
    by (simp only: fold_filter_map [where h = set_add and g = "\<lambda>u. JStr (trim u)"] map_map comp_def)
  have step: "mb_method2_step el s = fold set_add (map JStr (?k el)) s" for el s
    by (simp add: mb_method2_step_def Let_def inner del: map_map)
  have "fold mb_method2_step (mb_lazyImages doc) us
      = fold set_add (concat (map (\<lambda>el. map JStr (?k el)) (mb_lazyImages doc))) us"
    using fold_concat [where f = "\<lambda>el. mb_method2_step" and g = "\<lambda>el. [el]"
        and h = set_add and k = "\<lambda>el. map JStr (?k el)"] step
    by (induction "mb_lazyImages doc" arbitrary: us) (simp_all add: step)
  also have "concat (map (\<lambda>el. map JStr (?k el)) (mb_lazyImages doc))
      = map JStr (mb_method2_candidates doc)"
    by (simp add: mb_method2_candidates_def map_concat comp_def Let_def)
  finally show ?thesis by (simp add: mb_method2_def)
qed

lemma mp_push_append:
  assumes "push_state st"
  shows "\<exists>r. fst (mp_push (JStr u) st) = fst st @ r
            \<and> set (map url r) = {JStr u} - set (map url (fst st))"
  using assms by (cases st) (auto simp: push_state_def mp_push_def set_has_def)

lemma mp_method2_fold_append:
  assumes "push_state st"
  shows "\<exists>r. fst (fold (\<lambda>imageUrl st. if imageUrl \<noteq> [] then mp_push (JStr imageUrl) st else st) us st)
              = fst st @ r
            \<and> set (map url r) = JStr ` (set us - {[]}) - set (map url (fst st))"
  using assms
proof (induction us arbitrary: st)
  case Nil
  show ?case by simp
next
  case (Cons u us)
  let ?f = "\<lambda>imageUrl st. if imageUrl \<noteq> [] then mp_push (JStr imageUrl) st else st"
  have ps: "push_state (?f u st)" using Cons.prems by (simp add: push_state_mp_push)
  obtain r1 where r1: "fst (?f u st) = fst st @ r1"
      "set (map url r1) = JStr ` ({u} - {[]}) - set (map url (fst st))"
    using mp_push_append [OF Cons.prems, of u] by (cases "u = []") auto
  obtain r2 where r2: "fst (fold ?f us (?f u st)) = fst (?f u st) @ r2"
      "set (map url r2) = JStr ` (set us - {[]}) - set (map url (fst (?f u st)))"
    using Cons.IH [OF ps] by blast
  have "fst (fold ?f (u # us) st) = fst st @ (r1 @ r2)"
    using r1(1) r2(1) by simp
  moreover have "set (map url (r1 @ r2)) = JStr ` (set (u # us) - {[]}) - set (map url (fst st))"
    using r1 r2(2) by auto
  ultimately show ?case by blast
qed

lemma mp_method2_appends:
  assumes "numbered pages"
  shows "\<exists>r. mp_method2 doc pages = pages @ r
            \<and> set (map url r) = JStr ` (set (mp_domainMatches doc) - {[]}) - set (map url pages)"
proof (cases "mp_domainMatches doc = []")
  case True
  then show ?thesis by (simp add: mp_method2_def)
next
  case False
  then show ?thesis
    using mp_method2_fold_append [OF push_state_init [OF assms], of "mp_domainMatches doc"]
    by (simp add: mp_method2_def)
qed

lemma mp_method2_fold_first_seen:
  assumes "push_state st"
  shows "map url (fst (fold (\<lambda>imageUrl st. if imageUrl \<noteq> [] then mp_push (JStr imageUrl) st else st) us st))
           = map url (fst st)
             @ filter (\<lambda>v. v \<notin> set (map url (fst st)))
                 (first_seen (map JStr (filter (\<lambda>u. u \<noteq> []) us)))"
proof (induction us rule: rev_induct)
  case Nil
  show ?case by simp
next
  case (snoc u us)
  let ?f = "\<lambda>imageUrl st. if imageUrl \<noteq> [] then mp_push (JStr imageUrl) st else st"
  define st' where "st' = fold ?f us st"
  define old where "old = map url (fst st)"
  define cs where "cs = map JStr (filter (\<lambda>u. u \<noteq> []) us)"
  have ps: "push_state st'"
    unfolding st'_def
    by (rule fold_preserves [where P = push_state]) (simp_all add: push_state_mp_push assms)
  obtain pages existingUrls next_index where st'': "st' = (pages, existingUrls, next_index)"
    by (cases st') auto
  have ex: "existingUrls = set (map url pages)"
    using ps by (simp add: st'' push_state_def)
  have IH: "map url pages = old @ filter (\<lambda>v. v \<notin> set old) (first_seen cs)"
    using snoc by (simp add: st'' st'_def [symmetric] old_def cs_def)
  have mem: "JStr u \<in> set (map url pages) \<longleftrightarrow> JStr u \<in> set old \<or> JStr u \<in> set cs"
    by (subst IH) auto
  have step: "map url (fst (?f u st'))
      = (if u \<noteq> [] \<and> JStr u \<notin> set (map url pages) then map url pages @ [JStr u]
         else map url pages)"
    by (simp add: st'' mp_push_def set_has_def ex)
  have rhs: "old @ filter (\<lambda>v. v \<notin> set old) (first_seen (map JStr (filter (\<lambda>u. u \<noteq> []) (us @ [u]))))
      = (if u \<noteq> [] \<and> JStr u \<notin> set (map url pages) then map url pages @ [JStr u]
         else map url pages)"
  proof (cases "u = []")
    case True
    then show ?thesis by (simp add: IH cs_def)
  next
    case False
    have "first_seen (map JStr (filter (\<lambda>u. u \<noteq> []) (us @ [u]))) = first_seen (cs @ [JStr u])"
      using False by (simp add: cs_def)
    also have "\<dots> = (if JStr u \<in> set cs then first_seen cs else first_seen cs @ [JStr u])"
      by (rule first_seen_snoc)
    finally show ?thesis
      using False mem by (simp add: IH)
  qed
  have "fold ?f (us @ [u]) st = ?f u st'" by (simp add: st'_def)
  then show ?case using step rhs by (simp only: old_def)
qed

lemma mp_method2_first_seen:
  assumes "numbered pages"
  shows "map url (mp_method2 doc pages)
           = map url pages
             @ filter (\<lambda>v. v \<notin> set (map url pages))
                 (first_seen (map JStr (filter (\<lambda>u. u \<noteq> []) (mp_domainMatches doc))))"
proof (cases "mp_domainMatches doc = []")
  case True
  then show ?thesis by (simp add: mp_method2_def)
next
  case False
  then show ?thesis
    using mp_method2_fold_first_seen [OF push_state_init [OF assms], of "mp_domainMatches doc"]
    by (simp add: mp_method2_def)
qed

lemma mp_method1_first_seen:
  "map url (mp_method1 doc [])
     = first_seen (map JStr (filter (\<lambda>u. u \<noteq> [])
                     (map (replace_all (CHR 0x5C # ''u002F'') ''/'') (mp_jsonMatches doc))))"
proof -
  let ?rp = "replace_all (CHR 0x5C # ''u002F'') ''/''"
  have "map url (fst (fold mp_method1_step ms ([], Suc 0)))
      = first_seen (map JStr (filter (\<lambda>u. u \<noteq> []) (map ?rp ms)))" for ms
  proof (induction ms rule: rev_induct)
    case Nil
    show ?case by simp
  next
    case (snoc m ms)
    define cs where "cs = map JStr (filter (\<lambda>u. u \<noteq> []) (map ?rp ms))"
    obtain pages next_index where st: "fold mp_method1_step ms ([], Suc 0) = (pages, next_index)"
      by (cases "fold mp_method1_step ms ([], Suc 0)") auto
    have IH: "map url pages = first_seen cs"
      using snoc unfolding st cs_def by simp
    have mem: "list_ex (\<lambda>p. url p = JStr (?rp m)) pages \<longleftrightarrow> JStr (?rp m) \<in> set cs"
    proof -
      have "list_ex (\<lambda>p. url p = v) pages \<longleftrightarrow> v \<in> set (map url pages)" for v
        by (induction pages) auto
      then have "list_ex (\<lambda>p. url p = JStr (?rp m)) pages \<longleftrightarrow> JStr (?rp m) \<in> set (map url pages)" .
      then show ?thesis by (simp only: IH set_first_seen)
    qed
    have step: "map url (fst (mp_method1_step m (pages, next_index)))
        = (if ?rp m \<noteq> [] \<and> JStr (?rp m) \<notin> set cs then first_seen cs @ [JStr (?rp m)]
           else first_seen cs)"
      by (simp add: mp_method1_step_def Let_def mem IH)
    have rhs: "first_seen (map JStr (filter (\<lambda>u. u \<noteq> []) (map ?rp (ms @ [m]))))
        = (if ?rp m \<noteq> [] \<and> JStr (?rp m) \<notin> set cs then first_seen cs @ [JStr (?rp m)]
           else first_seen cs)"
    proof (cases "?rp m = []")
      case True
      then show ?thesis by (simp add: cs_def)
    next
      case False
      have "first_seen (map JStr (filter (\<lambda>u. u \<noteq> []) (map ?rp (ms @ [m]))))
          = first_seen (cs @ [JStr (?rp m)])"
        using False by (simp add: cs_def)
      then show ?thesis using False by (simp add: first_seen_snoc)
    qed
    have "fold mp_method1_step (ms @ [m]) ([], Suc 0) = mp_method1_step m (pages, next_index)"
      by (simp add: st)
    then show ?case using step rhs by simp
  qed
  then show ?thesis
    by (cases "mp_jsonMatches doc = []") (simp_all add: mp_method1_def)
qed

lemma mb_method1_first_seen:
  "mb_method1 doc [] = first_seen (map JStr (mb_method1_candidates doc))"
  by (simp add: mb_method1_fold_candidates fold_set_add_strings)

lemma mb_method2_first_seen:
  "mb_method2 doc us
     = us @ filter (\<lambda>v. v \<notin> set us) (first_seen (map JStr (mb_method2_candidates doc)))"
  by (simp only: mb_method2_fold_candidates fold_set_add_strings)

text \<open>
  First-seen order, on MangaBuddy: when its first two methods offer a URL at all, the URLs
  of the list returned are the first occurrences of the URLs these two methods offer, in
  the order in which they offer them.
\<close>

lemma mb_fetchChapterPages_first_seen:
  assumes "mb_method1_candidates mb @ mb_method2_candidates mb \<noteq> []"
  shows "map url (mb_fetchChapterPages mb)
           = first_seen (map JStr (mb_method1_candidates mb @ mb_method2_candidates mb))"
proof -
  let ?us = "first_seen (map JStr (mb_method1_candidates mb @ mb_method2_candidates mb))"
  have us: "mb_method2 mb (mb_method1 mb []) = ?us"
    by (simp only: mb_method2_first_seen mb_method1_first_seen first_seen_append map_append
          set_first_seen)
  have "set ?us = JStr ` set (mb_method1_candidates mb @ mb_method2_candidates mb)"
    by (simp only: set_first_seen set_map)
  then have "set ?us \<noteq> {}" using assms by simp
  then have ne: "?us \<noteq> []" by (metis set_empty)
  have "mb_method6 mb (mb_method5 mb (mb_method4 mb (mb_method3 mb ?us))) = ?us"
    using ne by (simp add: mb_method3_def mb_method4_def mb_method5_def mb_method6_def)
  then have "mb_fetchChapterPages mb = to_pages ?us"
    by (simp add: mb_fetchChapterPages_def Let_def us sort_to_pages)
  then show ?thesis by (simp only: map_url_to_pages)
qed

subsection \<open>Extraction pipelines: distinct URLs, contiguous indices\<close>

lemma distinct_values_no_object:
  "\<not> list_ex is_object vs \<Longrightarrow> distinct_values vs = distinct vs"
  by (simp add: distinct_values_def list_ex_iff)

lemma distinct_values_filter: "distinct_values vs \<Longrightarrow> distinct_values (filter P vs)"
proof -
  assume "distinct_values vs"
  then have "distinct (filter P (filter (\<lambda>v. \<not> is_object v) vs))"
    unfolding distinct_values_def by (rule distinct_filter)
  moreover have "filter (\<lambda>v. \<not> is_object v) (filter P vs) = filter P (filter (\<lambda>v. \<not> is_object v) vs)"
    by (simp add: conj_commute)
  ultimately show ?thesis by (simp only: distinct_values_def)
qed

lemma numbered_to_pages: "distinct_values us \<Longrightarrow> numbered (to_pages us)"
  by (simp add: numbered_def map_url_to_pages map_index_to_pages length_to_pages del: upt_Suc)

lemma numbered_mb_fetchChapterPages: "numbered (mb_fetchChapterPages doc)"
proof -
  have "distinct_values (mb_method6 doc (mb_method5 doc (mb_method4 doc (mb_method3 doc
          (mb_method2 doc (mb_method1 doc []))))))"
    by (intro distinct_mb_method6 distinct_mb_method5 distinct_mb_method4 distinct_mb_method3
          distinct_mb_method2 distinct_mb_method1) simp
  then show ?thesis
    by (simp add: mb_fetchChapterPages_def Let_def sort_to_pages numbered_to_pages)
qed

lemma mk_fetchChapterPages_distinct:
  assumes "mk_fetchChapterPages doc = Inr pages"
  shows "distinct (map url pages) \<and> map index pages = [1..<Suc (length pages)]"
proof -
  let ?us = "mk_method3 doc (mk_method2 doc (mk_method1 doc []))"
  let ?keep = "\<lambda>v. case v of
                     JStr u \<Rightarrow> ext_at_end u \<and> \<not> includes_str u ''avatar''
                       \<and> \<not> includes_str u ''logo'' \<and> \<not> includes_str u ''banner''
                   | _ \<Rightarrow> False"
  have strings: "\<not> list_ex (\<lambda>v. case v of JStr u \<Rightarrow> False | _ \<Rightarrow> True) ?us"
    and pages: "pages = to_pages (filter ?keep ?us)"
    using assms by (auto simp: mk_fetchChapterPages_def Let_def sort_to_pages split: if_splits)
  have "\<not> list_ex is_object (filter ?keep ?us)"
    by (auto simp: list_ex_iff split: json.splits)
  moreover have "distinct_values (filter ?keep ?us)"
    by (intro distinct_values_filter distinct_mk_method3 distinct_mk_method2 distinct_mk_method1) simp
  ultimately have "distinct (filter ?keep ?us)"
    by (simp add: distinct_values_no_object)
  then show ?thesis
    by (simp add: pages map_url_to_pages map_index_to_pages length_to_pages del: upt_Suc)
qed

text \<open>
  What holds of C8 for every document. The indices of a returned list are exactly
  \<open>1, 2, ..., n\<close> in list order, and its URLs that are strings (or numbers or booleans)
  are pairwise distinct, for MangaBuddy and for MangaPark; for MangaKakalot, which fails
  on a URL that is not a string, every returned list has pairwise distinct URLs.
\<close>

lemma fetchChapterPages_numbered:
  "numbered (mb_fetchChapterPages mb)
   \<and> (mk_fetchChapterPages mk = Inr pages
        \<longrightarrow> distinct (map url pages) \<and> map index pages = [1..<Suc (length pages)])
   \<and> numbered (mp_fetchChapterPages mp)"
  using numbered_mb_fetchChapterPages mk_fetchChapterPages_distinct numbered_mp_fetchChapterPages
  by blast

text \<open>
  The example of the claim, on MangaBuddy: a document with the image
  \<^verbatim>\<open>https://cdn.x/a.jpg\<close> in a \<^verbatim>\<open>data-src\<close> attribute and again in the comma-separated
  list \<^verbatim>\<open>'https://cdn.x/a.jpg,https://cdn.x/b.jpg'\<close> gives one page for it.
\<close>

lemma mb_fetchChapterPages_example:
  "mb_fetchChapterPages
     \<lparr>mb_commaListMatches = [''https://cdn.x/a.jpg,https://cdn.x/b.jpg''],
      mb_lazyImages = [(Some ''https://cdn.x/a.jpg'', None)],
      mb_domainMatches = [],
      mb_jsonMatches = [],
      mb_scriptData = [None, None, None, None, None, None],
      mb_broadMatches = [''https://cdn.x/a.jpg,'']\<rparr>
     = [\<lparr>url = JStr ''https://cdn.x/a.jpg'', index = 1\<rparr>,
        \<lparr>url = JStr ''https://cdn.x/b.jpg'', index = 2\<rparr>]"
  by code_simp

text \<open>
  C8. The claim: every list returned by \<open>fetchChapterPages\<close> has pairwise distinct page
  URLs. The code: MangaBuddy's method 5 stores \<^verbatim>\<open>img.url || img.src || ...\<close> without
  testing that it is a string, and the \<^verbatim>\<open>Set\<close> tells arrays and objects apart by
  identity. For a chapter page that holds only
  \<^verbatim>\<open>var images = [{"url":["https://cdn.x/1.jpg"]},{"url":["https://cdn.x/1.jpg"]}];\<close>
  the first script pattern captures the array, the \<^verbatim>\<open>url\<close> of each element is added
  (two arrays of the same content, which are two objects), and the list returned has two
  page records with the same \<open>url\<close>, \<^verbatim>\<open>["https://cdn.x/1.jpg"]\<close>.
\<close>

theorem mb_fetchChapterPages_same_url_twice:
  "mb_fetchChapterPages
     \<lparr>mb_commaListMatches = [],
      mb_lazyImages = [],
      mb_domainMatches = [],
      mb_jsonMatches = [],
      mb_scriptData = [Some (ImageArray [JObj [(''url'', JArr [JStr ''https://cdn.x/1.jpg''])],
                                         JObj [(''url'', JArr [JStr ''https://cdn.x/1.jpg''])]]),
                       None, None, None, None, None],
      mb_broadMatches = []\<rparr>
     = [\<lparr>url = JArr [JStr ''https://cdn.x/1.jpg''], index = 1\<rparr>,
        \<lparr>url = JArr [JStr ''https://cdn.x/1.jpg''], index = 2\<rparr>]"
  by code_simp

subsection \<open>Extraction pipelines: which methods contribute\<close>

text \<open>
  C1, as the claim states it, fails. A MangaPark document with
  \<^verbatim>\<open>{"url":"https://s1.mpabc.org/media/1.jpg"}\<close> in a script and
  \<^verbatim>\<open><img src="https://s1.mpabc.org/media/2.jpg">\<close> in the page: method 1 (the
  \<^verbatim>\<open>"url"\<close> tokens) finds the first image, so its page list is not empty, and method 2
  (the asset-host pattern, which matches both URLs) still runs and adds the second.
\<close>

theorem mp_fetchChapterPages_blends_counterexample:
  "mp_method1
     \<lparr>mp_jsonMatches = [''https://s1.mpabc.org/media/1.jpg''],
      mp_domainMatches = [''https://s1.mpabc.org/media/1.jpg'', ''https://s1.mpabc.org/media/2.jpg''],
      mp_imageMatches = [(None, Some ''https://s1.mpabc.org/media/2.jpg'')],
      mp_scriptData = [None, None, None, None, None, None],
      mp_broadMatches = []\<rparr> []
     = [\<lparr>url = JStr ''https://s1.mpabc.org/media/1.jpg'', index = 1\<rparr>]
   \<and> mp_fetchChapterPages
     \<lparr>mp_jsonMatches = [''https://s1.mpabc.org/media/1.jpg''],
      mp_domainMatches = [''https://s1.mpabc.org/media/1.jpg'', ''https://s1.mpabc.org/media/2.jpg''],
      mp_imageMatches = [(None, Some ''https://s1.mpabc.org/media/2.jpg'')],
      mp_scriptData = [None, None, None, None, None, None],
      mp_broadMatches = []\<rparr>
     = [\<lparr>url = JStr ''https://s1.mpabc.org/media/1.jpg'', index = 1\<rparr>,
        \<lparr>url = JStr ''https://s1.mpabc.org/media/2.jpg'', index = 2\<rparr>]"
  by code_simp

text \<open>
  C1, amended. \<open>fetchChapterPages\<close> of MangaPark and of MangaBuddy always runs its first
  two methods and merges them: the pages of method 1 come first and method 2 appends the
  URLs that method 1 did not give. For MangaPark the pages of method 2 are appended to
  those of method 1 and their URLs are exactly the non-empty matches of the asset-host
  pattern that are not yet there; in list form, the URLs after method 2 are those of
  method 1 followed by the first occurrences of these matches. For MangaBuddy the
  \<^verbatim>\<open>Set\<close> after method 1 is the list of first occurrences of the members of the
  comma-separated lists that pass its test, and method 2 appends to it, in order, the first
  occurrence of every attribute value passing its test that is not yet there. Only
  the later methods are short-circuited. If the first two methods together give at least
  one page, that merged list is the output and no later method contributes; otherwise the
  output is that of the first later method that gives a page, alone.
\<close>

theorem fetchChapterPages_short_circuit:
  "(\<exists>r. mp_method2 mp (mp_method1 mp []) = mp_method1 mp [] @ r
        \<and> set (map url r) = JStr ` (set (mp_domainMatches mp) - {[]}) - set (map url (mp_method1 mp [])))
   \<and> (mp_method2 mp (mp_method1 mp []) \<noteq> []
      \<longrightarrow> mp_fetchChapterPages mp = mp_method2 mp (mp_method1 mp []))
   \<and> (mp_method2 mp (mp_method1 mp []) = []
      \<longrightarrow> mp_fetchChapterPages mp =
            (if mp_method3 mp [] \<noteq> [] then mp_method3 mp []
             else if mp_method4 mp [] \<noteq> [] then mp_method4 mp []
             else mp_method5 mp []))
   \<and> map url (mp_method2 mp (mp_method1 mp []))
       = map url (mp_method1 mp [])
         @ filter (\<lambda>v. v \<notin> set (map url (mp_method1 mp [])))
             (first_seen (map JStr (filter (\<lambda>u. u \<noteq> []) (mp_domainMatches mp))))
   \<and> mb_method1 mb [] = first_seen (map JStr (mb_method1_candidates mb))
   \<and> mb_method2 mb (mb_method1 mb [])
       = mb_method1 mb []
         @ filter (\<lambda>v. v \<notin> set (mb_method1 mb []))
             (first_seen (map JStr (mb_method2_candidates mb)))
   \<and> (mb_method2 mb (mb_method1 mb []) \<noteq> []
      \<longrightarrow> mb_fetchChapterPages mb = to_pages (mb_method2 mb (mb_method1 mb [])))
   \<and> (mb_method2 mb (mb_method1 mb []) = []
      \<longrightarrow> mb_fetchChapterPages mb =
            to_pages
              (if mb_method3 mb [] \<noteq> [] then mb_method3 mb []
               else if mb_method4 mb [] \<noteq> [] then mb_method4 mb []
               else if mb_method5 mb [] \<noteq> [] then mb_method5 mb []
               else mb_method6 mb []))"
proof -
  have mp_skip: "pages \<noteq> [] \<Longrightarrow> mp_method3 mp pages = pages \<and> mp_method4 mp pages = pages
      \<and> mp_method5 mp pages = pages" for pages
    by (simp add: mp_method3_def mp_method4_def mp_method5_def)
  have mb_skip: "us \<noteq> [] \<Longrightarrow> mb_method3 mb us = us \<and> mb_method4 mb us = us
      \<and> mb_method5 mb us = us \<and> mb_method6 mb us = us" for us
    by (simp add: mb_method3_def mb_method4_def mb_method5_def mb_method6_def)
  have n12: "numbered (mp_method2 mp (mp_method1 mp []))"
    by (intro numbered_mp_method2 numbered_mp_method1)
  have unsort: "numbered pages \<Longrightarrow> sort_key index pages = pages" for pages
    by (intro sort_key_id_if_sorted) (simp add: numbered_def del: upt_Suc)
  have m: "\<exists>r. mp_method2 mp (mp_method1 mp []) = mp_method1 mp [] @ r
        \<and> set (map url r) = JStr ` (set (mp_domainMatches mp) - {[]}) - set (map url (mp_method1 mp []))"
    by (rule mp_method2_appends [OF numbered_mp_method1])
  have a: "mp_method2 mp (mp_method1 mp []) \<noteq> []
      \<longrightarrow> mp_fetchChapterPages mp = mp_method2 mp (mp_method1 mp [])"
    using mp_skip unsort [OF n12] by (simp add: mp_fetchChapterPages_def Let_def)
  have b: "mp_method2 mp (mp_method1 mp []) = []
      \<longrightarrow> mp_fetchChapterPages mp =
            (if mp_method3 mp [] \<noteq> [] then mp_method3 mp []
             else if mp_method4 mp [] \<noteq> [] then mp_method4 mp []
             else mp_method5 mp [])"
    using mp_skip [of "mp_method3 mp []"] mp_skip [of "mp_method4 mp []"]
      unsort [OF numbered_mp_method3 [OF numbered_Nil, of mp]]
      unsort [OF numbered_mp_method4 [OF numbered_Nil, of mp]]
      unsort [OF numbered_mp_method5 [OF numbered_Nil, of mp]]
    by (simp add: mp_fetchChapterPages_def Let_def)
  have l: "map url (mp_method2 mp (mp_method1 mp []))
       = map url (mp_method1 mp [])
         @ filter (\<lambda>v. v \<notin> set (map url (mp_method1 mp [])))
             (first_seen (map JStr (filter (\<lambda>u. u \<noteq> []) (mp_domainMatches mp))))"
    by (rule mp_method2_first_seen [OF numbered_mp_method1])
  have m1: "mb_method1 mb [] = first_seen (map JStr (mb_method1_candidates mb))"
    by (rule mb_method1_first_seen)
  have m2: "mb_method2 mb (mb_method1 mb [])
       = mb_method1 mb []
         @ filter (\<lambda>v. v \<notin> set (mb_method1 mb []))
             (first_seen (map JStr (mb_method2_candidates mb)))"
    by (rule mb_method2_first_seen)
  have c: "mb_method2 mb (mb_method1 mb []) \<noteq> []
      \<longrightarrow> mb_fetchChapterPages mb = to_pages (mb_method2 mb (mb_method1 mb []))"
    using mb_skip by (simp add: mb_fetchChapterPages_def Let_def sort_to_pages)
  have d: "mb_method2 mb (mb_method1 mb []) = []
      \<longrightarrow> mb_fetchChapterPages mb =
            to_pages
              (if mb_method3 mb [] \<noteq> [] then mb_method3 mb []
               else if mb_method4 mb [] \<noteq> [] then mb_method4 mb []
               else if mb_method5 mb [] \<noteq> [] then mb_method5 mb []
               else mb_method6 mb [])"
    using mb_skip [of "mb_method3 mb []"] mb_skip [of "mb_method4 mb []"]
      mb_skip [of "mb_method5 mb []"]
    by (simp add: mb_fetchChapterPages_def Let_def sort_to_pages)
  show ?thesis
    by (intro conjI) (rule m a b l m1 m2 c d)+
qed

theorem fetchChapterPages_short_circuit_witness:
  "mp_method2
     \<lparr>mp_jsonMatches = [''https://s1.mpabc.org/media/1.jpg''],
      mp_domainMatches = [''https://s1.mpabc.org/media/1.jpg'', ''https://s1.mpabc.org/media/2.jpg''],
      mp_imageMatches = [(None, Some ''https://s1.mpabc.org/media/2.jpg'')],
      mp_scriptData = [None, None, None, None, None, None],
      mp_broadMatches = []\<rparr>
     (mp_method1
       \<lparr>mp_jsonMatches = [''https://s1.mpabc.org/media/1.jpg''],
        mp_domainMatches = [''https://s1.mpabc.org/media/1.jpg'', ''https://s1.mpabc.org/media/2.jpg''],
        mp_imageMatches = [(None, Some ''https://s1.mpabc.org/media/2.jpg'')],
        mp_scriptData = [None, None, None, None, None, None],
        mp_broadMatches = []\<rparr> []) \<noteq> []
   \<and> mp_fetchChapterPages
     \<lparr>mp_jsonMatches = [''https://s1.mpabc.org/media/1.jpg''],
      mp_domainMatches = [''https://s1.mpabc.org/media/1.jpg'', ''https://s1.mpabc.org/media/2.jpg''],
      mp_imageMatches = [(None, Some ''https://s1.mpabc.org/media/2.jpg'')],
      mp_scriptData = [None, None, None, None, None, None],
      mp_broadMatches = []\<rparr>
     = [\<lparr>url = JStr ''https://s1.mpabc.org/media/1.jpg'', index = 1\<rparr>,
        \<lparr>url = JStr ''https://s1.mpabc.org/media/2.jpg'', index = 2\<rparr>]
   \<and> mb_method2
     \<lparr>mb_commaListMatches = [''https://cdn.x/a.jpg,https://cdn.x/b.jpg''],
      mb_lazyImages = [(Some ''https://cdn.x/b.jpg'', None), (None, Some ''https://cdn.x/c.jpg'')],
      mb_domainMatches = [],
      mb_jsonMatches = [],
      mb_scriptData = [None, None, None, None, None, None],
      mb_broadMatches = []\<rparr>
     (mb_method1
       \<lparr>mb_commaListMatches = [''https://cdn.x/a.jpg,https://cdn.x/b.jpg''],
        mb_lazyImages = [(Some ''https://cdn.x/b.jpg'', None), (None, Some ''https://cdn.x/c.jpg'')],
        mb_domainMatches = [],
        mb_jsonMatches = [],
        mb_scriptData = [None, None, None, None, None, None],
        mb_broadMatches = []\<rparr> []) \<noteq> []
   \<and> mb_fetchChapterPages
     \<lparr>mb_commaListMatches = [''https://cdn.x/a.jpg,https://cdn.x/b.jpg''],
      mb_lazyImages = [(Some ''https://cdn.x/b.jpg'', None), (None, Some ''https://cdn.x/c.jpg'')],
      mb_domainMatches = [],
      mb_jsonMatches = [],
      mb_scriptData = [None, None, None, None, None, None],
      mb_broadMatches = []\<rparr>
     = [\<lparr>url = JStr ''https://cdn.x/a.jpg'', index = 1\<rparr>,
        \<lparr>url = JStr ''https://cdn.x/b.jpg'', index = 2\<rparr>,
        \<lparr>url = JStr ''https://cdn.x/c.jpg'', index = 3\<rparr>]"
proof -
  let ?d = "\<lparr>mp_jsonMatches = [''https://s1.mpabc.org/media/1.jpg''],
      mp_domainMatches = [''https://s1.mpabc.org/media/1.jpg'', ''https://s1.mpabc.org/media/2.jpg''],
      mp_imageMatches = [(None, Some ''https://s1.mpabc.org/media/2.jpg'')],
      mp_scriptData = [None, None, None, None, None, None],
      mp_broadMatches = []\<rparr>"
  let ?b = "\<lparr>mb_commaListMatches = [''https://cdn.x/a.jpg,https://cdn.x/b.jpg''],
      mb_lazyImages = [(Some ''https://cdn.x/b.jpg'', None), (None, Some ''https://cdn.x/c.jpg'')],
      mb_domainMatches = [],
      mb_jsonMatches = [],
      mb_scriptData = [None, None, None, None, None, None],
      mb_broadMatches = []\<rparr>"
  have merged: "mp_method2 ?d (mp_method1 ?d [])
      = [\<lparr>url = JStr ''https://s1.mpabc.org/media/1.jpg'', index = 1\<rparr>,
         \<lparr>url = JStr ''https://s1.mpabc.org/media/2.jpg'', index = 2\<rparr>]"
    by code_simp
  then have ne: "mp_method2 ?d (mp_method1 ?d []) \<noteq> []" by simp
  have merged_b: "mb_method2 ?b (mb_method1 ?b [])
      = [JStr ''https://cdn.x/a.jpg'', JStr ''https://cdn.x/b.jpg'', JStr ''https://cdn.x/c.jpg'']"
    by code_simp
  then have ne_b: "mb_method2 ?b (mb_method1 ?b []) \<noteq> []" by simp
  have pages_b: "to_pages [JStr ''https://cdn.x/a.jpg'', JStr ''https://cdn.x/b.jpg'', JStr ''https://cdn.x/c.jpg'']
      = [\<lparr>url = JStr ''https://cdn.x/a.jpg'', index = 1\<rparr>,
         \<lparr>url = JStr ''https://cdn.x/b.jpg'', index = 2\<rparr>,
         \<lparr>url = JStr ''https://cdn.x/c.jpg'', index = 3\<rparr>]"
    by code_simp
  note th = fetchChapterPages_short_circuit [where mp = ?d and mb = ?b]
  note out = th [THEN conjunct2, THEN conjunct1, THEN mp, OF ne]
  note out_b = th [THEN conjunct2, THEN conjunct2, THEN conjunct2, THEN conjunct2, THEN conjunct2,
      THEN conjunct2, THEN conjunct1, THEN mp, OF ne_b]
  have "mb_fetchChapterPages ?b
      = [\<lparr>url = JStr ''https://cdn.x/a.jpg'', index = 1\<rparr>,
         \<lparr>url = JStr ''https://cdn.x/b.jpg'', index = 2\<rparr>,
         \<lparr>url = JStr ''https://cdn.x/c.jpg'', index = 3\<rparr>]"
    using out_b by (simp only: merged_b pages_b)
  then show ?thesis using ne out merged ne_b by simp
qed

subsection \<open>Chapter lists\<close>

lemma rev_upt_1: "rev [Suc 0..<Suc n] = map (\<lambda>i. n - i) [0..<n]"
  by (rule nth_equalityI) (auto simp: rev_nth simp del: upt_Suc)

text \<open>
  C10, as the claim states it, fails: it says that \<open>N\<close> records are always returned. For
  a page whose header reads \<^verbatim>\<open>CHAPTERS (4294967296)\<close> the number extracted is \<open>2\<^sup>3\<^sup>2\<close>,
  \<^verbatim>\<open>new Array(chaptersCount)\<close> throws, and \<^verbatim>\<open>getMangaInfo\<close> fails with an error.
\<close>

theorem mb_getMangaInfo_array_length_counterexample:
  "mb_latestChapter (Some ''4294967296'') [] = 4294967296
   \<and> mb_getMangaInfo_chapters ''one-piece'' (Some ''4294967296'') []
       = Inl (Error [Lit ''Failed to get manga info: '', Lit ''Invalid array length''])"
proof -
  have n: "mb_latestChapter (Some ''4294967296'') [] = 4294967296"
    by (simp add: mb_latestChapter_def parseInt_def)
  show ?thesis
    by (simp add: n mb_getMangaInfo_chapters_def Let_def)
qed

text \<open>
  C10, amended. MangaBuddy's \<open>getMangaInfo\<close> builds its chapter list from the one
  extracted number \<open>N\<close> (the count in the header, else the greatest chapter number in a
  link, else 1). When \<open>N\<close> is below \<open>2\<^sup>3\<^sup>2\<close> it returns exactly \<open>N\<close> records, numbered
  \<open>N\<close> down to 1; every record but the first, which is the latest chapter, has the date
  \<open>Unknown\<close>; and no record has the \<open>generated\<close> property. When \<open>N\<close> is \<open>2\<^sup>3\<^sup>2\<close> or
  more it returns no list: it fails with the error
  \<^verbatim>\<open>Failed to get manga info: Invalid array length\<close>.
\<close>

theorem mb_getMangaInfo_fabricates_chapters:
  fixes mangaId :: string and chapterCountMatch :: "string option" and chapterMatches :: "string list"
  defines "N \<equiv> mb_latestChapter chapterCountMatch chapterMatches"
  shows "(N < 2 ^ 32 \<longrightarrow>
            (\<exists>chs. mb_getMangaInfo_chapters mangaId chapterCountMatch chapterMatches = Inr chs
                 \<and> length chs = N
                 \<and> map number chs = map string_of_nat (rev [1..<Suc N])
                 \<and> (\<forall>i<N. generated (chs ! i) = None
                           \<and> date (chs ! i) = (if i = 0 then ''Recent'' else ''Unknown''))))
       \<and> (2 ^ 32 \<le> N \<longrightarrow>
            mb_getMangaInfo_chapters mangaId chapterCountMatch chapterMatches
              = Inl (Error [Lit ''Failed to get manga info: '', Lit ''Invalid array length'']))"
proof (intro conjI impI)
  assume small: "N < 2 ^ 32"
  define chs where "chs =
    map (\<lambda>i. \<lparr>chapter_id = ''chapter-'' @ string_of_nat (N - i),
              chapter_title = ''Chapter '' @ string_of_nat (N - i),
              number = string_of_nat (N - i),
              chapter_url = (mb_baseUrl @ ''/'' @ mangaId @ ''/chapter-'') @ string_of_nat (N - i),
              date = (if N - i = N then ''Recent'' else ''Unknown''),
              generated = None\<rparr>)
      [0..<N]"
  have r: "mb_getMangaInfo_chapters mangaId chapterCountMatch chapterMatches = Inr chs"
    using small by (simp add: chs_def N_def mb_getMangaInfo_chapters_def Let_def)
  have "map number chs = map (\<lambda>i. string_of_nat (N - i)) [0..<N]"
    by (simp add: chs_def comp_def)
  then have nums: "map number chs = map string_of_nat (rev [1..<Suc N])"
    by (simp add: rev_upt_1 comp_def del: upt_Suc)
  have len: "length chs = N"
    by (simp add: chs_def)
  have rest: "\<forall>i<N. generated (chs ! i) = None
                 \<and> date (chs ! i) = (if i = 0 then ''Recent'' else ''Unknown'')"
    by (auto simp: chs_def)
  show "\<exists>chs. mb_getMangaInfo_chapters mangaId chapterCountMatch chapterMatches = Inr chs
          \<and> length chs = N
          \<and> map number chs = map string_of_nat (rev [1..<Suc N])
          \<and> (\<forall>i<N. generated (chs ! i) = None
                    \<and> date (chs ! i) = (if i = 0 then ''Recent'' else ''Unknown''))"
    using r len nums rest by blast
next
  assume "2 ^ 32 \<le> N"
  then show "mb_getMangaInfo_chapters mangaId chapterCountMatch chapterMatches
      = Inl (Error [Lit ''Failed to get manga info: '', Lit ''Invalid array length''])"
    by (simp add: N_def mb_getMangaInfo_chapters_def Let_def)
qed

theorem mb_getMangaInfo_fabricates_chapters_witness:
  "mb_latestChapter (Some ''3'') [] < 2 ^ 32
   \<and> map number (projr (mb_getMangaInfo_chapters ''one-piece'' (Some ''3'') [])) = [''3'', ''2'', ''1'']
   \<and> map date (projr (mb_getMangaInfo_chapters ''one-piece'' (Some ''3'') []))
       = [''Recent'', ''Unknown'', ''Unknown'']
   \<and> map generated (projr (mb_getMangaInfo_chapters ''one-piece'' (Some ''3'') [])) = [None, None, None]
   \<and> 2 ^ 32 \<le> mb_latestChapter (Some ''4294967296'') []
   \<and> mb_getMangaInfo_chapters ''one-piece'' (Some ''4294967296'') []
       = Inl (Error [Lit ''Failed to get manga info: '', Lit ''Invalid array length''])"
proof -
  have n: "mb_latestChapter (Some ''3'') [] = 3"
    by (simp add: mb_latestChapter_def parseInt_def)
  have lt: "mb_latestChapter (Some ''3'') [] < 2 ^ 32" by (simp add: n)
  have big: "mb_latestChapter (Some ''4294967296'') [] = 4294967296"
    by (simp add: mb_latestChapter_def parseInt_def)
  have ge: "2 ^ 32 \<le> mb_latestChapter (Some ''4294967296'') []" by (simp add: big)
  note th = mb_getMangaInfo_fabricates_chapters [where chapterCountMatch = "Some ''3''"
      and chapterMatches = "[]" and mangaId = "''one-piece''"]
  note th_big = mb_getMangaInfo_fabricates_chapters [where chapterCountMatch = "Some ''4294967296''"
      and chapterMatches = "[]" and mangaId = "''one-piece''"]
  obtain chs where chs: "mb_getMangaInfo_chapters ''one-piece'' (Some ''3'') [] = Inr chs"
      "length chs = mb_latestChapter (Some ''3'') []"
      "map number chs = map string_of_nat (rev [1..<Suc (mb_latestChapter (Some ''3'') [])])"
      "\<forall>i<mb_latestChapter (Some ''3'') []. generated (chs ! i) = None
          \<and> date (chs ! i) = (if i = 0 then ''Recent'' else ''Unknown'')"
    using th [THEN conjunct1, THEN mp, OF lt] by blast
  have len: "length chs = 3" using chs(2) by (simp add: n)
  have upt: "rev [1..<Suc 3] = [3, 2, 1::nat]" by (simp add: upt_rec)
  have strs: "map string_of_nat [3, 2, 1] = [''3'', ''2'', ''1'']" by code_simp
  have nums: "map number chs = [''3'', ''2'', ''1'']"
    using chs(3) by (simp only: n upt strs)
  have each: "generated (chs ! i) = None \<and> date (chs ! i) = (if i = 0 then ''Recent'' else ''Unknown'')"
    if "i < 3" for i
    using chs(4) that by (simp add: n)
  have shape: "chs = [chs ! 0, chs ! 1, chs ! 2]"
    using len by (intro nth_equalityI) (auto simp: less_Suc_eq numeral_3_eq_3 numeral_2_eq_2)
  have dates: "map date chs = [''Recent'', ''Unknown'', ''Unknown'']"
    by (subst shape) (simp add: each)
  have gens: "map generated chs = [None, None, None]"
    by (subst shape) (simp add: each)
  have err: "mb_getMangaInfo_chapters ''one-piece'' (Some ''4294967296'') []
      = Inl (Error [Lit ''Failed to get manga info: '', Lit ''Invalid array length''])"
    by (rule th_big [THEN conjunct2, THEN mp, OF ge])
  show ?thesis
    using lt nums dates gens ge err by (simp add: chs(1))
qed






end
